theory Spec2Isabelle
  imports Main "HOL-Library.Word"
begin

section \<open>Conventions\<close>

text \<open>
  A Go \<^verbatim>\<open>error\<close> is modelled by its message, a \<^typ>\<open>string\<close>; a function returning
  \<^verbatim>\<open>(T, error)\<close> returns \<open>string + T\<close> (\<open>Inl\<close> the error), a function returning only
  \<^verbatim>\<open>error\<close> returns \<open>string option\<close> (\<open>None\<close> is \<^verbatim>\<open>nil\<close>).
  \<^verbatim>\<open>fmt.Errorf("p: %v", err)\<close> and \<^verbatim>\<open>fmt.Errorf("p: %w", err)\<close> both have the message
  \<open>''p: '' @ err\<close>.  A call that may block for ever returns an \<open>option\<close> around its result,
  \<open>None\<close> meaning that it has not returned.
\<close>

type_synonym go_error = string

section \<open>internal/codespaces/states.go: connecting to a codespace\<close>

subsection \<open>The records of package api that the code reads\<close>

record CodespaceEnvironmentConnection =
  SessionID :: string
  SessionToken :: string
  RelayEndpoint :: string
  RelaySAS :: string

record CodespaceEnvironment =
  State :: string
  Connection :: CodespaceEnvironmentConnection

record Codespace =
  Name :: string
  RepositoryNWO :: string
  Environment :: CodespaceEnvironment

text \<open>
  Modelled from the spec: the constant \<^verbatim>\<open>api.CodespaceEnvironmentStateAvailable\<close> is declared
  in package api, which is not among the sources; the spec names the state "available".
\<close>

definition CodespaceEnvironmentStateAvailable :: string where
  "CodespaceEnvironmentStateAvailable = ''available''"

text \<open>
  The API client is outside the sources. Its three operations are oracles; the first
  argument of \<open>GetCodespace\<close> is the number of \<open>GetCodespace\<close> calls made before, so that
  successive polls may answer differently.  \<open>StartCodespace\<close> is taken not to change the
  record it is given.
\<close>

record API =
  GetCodespaceToken :: "string \<Rightarrow> string \<Rightarrow> go_error + string"
  StartCodespace :: "string \<Rightarrow> Codespace \<Rightarrow> go_error option"
  GetCodespace :: "nat \<Rightarrow> string \<Rightarrow> string \<Rightarrow> string \<Rightarrow> go_error + Codespace"

text \<open>What a run does besides returning: log output, sleeps (in seconds) and API calls, in order.\<close>

datatype event =
    LogPrint string
  | LogPrintln string
  | FmtPrint string
  | Sleep nat
  | StartCodespaceCall
  | GetCodespaceCall

subsection \<open>connectionReady\<close>

definition connectionReady :: "Codespace \<Rightarrow> bool" where
  "connectionReady codespace \<longleftrightarrow>
     SessionID (Connection (Environment codespace)) \<noteq> '''' \<and>
     SessionToken (Connection (Environment codespace)) \<noteq> '''' \<and>
     RelayEndpoint (Connection (Environment codespace)) \<noteq> '''' \<and>
     RelaySAS (Connection (Environment codespace)) \<noteq> '''' \<and>
     State (Environment codespace) = CodespaceEnvironmentStateAvailable"

subsection \<open>ConnectToLiveshare\<close>

text \<open>Go's \<^verbatim>\<open>%\<close> on signed integers truncates towards zero.\<close>

definition go_rem :: "int \<Rightarrow> int \<Rightarrow> int" where
  "go_rem a b = sgn a * (\<bar>a\<bar> mod \<bar>b\<bar>)"

text \<open>
  The loop \<^verbatim>\<open>for retries := 0; !connectionReady(codespace); retries++\<close>, from any value of its
  counter (a 64-bit \<^verbatim>\<open>int\<close>) and of the reassigned variable \<^verbatim>\<open>codespace\<close>. It returns the
  events of the iterations and either the error returned from inside the loop or the codespace
  with which the loop was left.
\<close>

function pollLoop ::
  "API \<Rightarrow> string \<Rightarrow> string \<Rightarrow> 64 word \<Rightarrow> nat \<Rightarrow> Codespace \<Rightarrow> event list \<times> (go_error + Codespace)"
where
  "pollLoop apiClient token userLogin retries calls codespace =
     (if connectionReady codespace then ([], Inr codespace)
      else
        let slept =
              (if 1 < sint retries
               then (if go_rem (sint retries) 2 = 0 then [LogPrint ''.''] else []) @ [Sleep 1]
               else [])
        in if retries = 30
           then (slept, Inl ''timed out while waiting for the Codespace to start'')
           else
             (case GetCodespace apiClient calls token userLogin (Name codespace) of
                Inl err \<Rightarrow> (slept @ [GetCodespaceCall], Inl (''error getting Codespace: '' @ err))
              | Inr fetched \<Rightarrow>
                  (case pollLoop apiClient token userLogin (retries + 1) (Suc calls) fetched of
                     (tr, r) \<Rightarrow> (slept @ GetCodespaceCall # tr, r))))"
  by pat_completeness auto
termination
proof (relation "measure (\<lambda>(apiClient, token, userLogin, retries, calls, codespace). unat (30 - retries))")
  show "wf (measure (\<lambda>(apiClient :: API, token :: string, userLogin :: string, retries :: 64 word,
      calls :: nat, codespace :: Codespace). unat (30 - retries)))"
    by (rule wf_measure)
next
  fix apiClient :: API and token userLogin :: string and retries :: "64 word" and calls :: nat
    and codespace fetched :: Codespace and slept :: "event list"
  assume a: "retries \<noteq> 30"
  have e: "30 - (retries + 1) = (30 - retries) - 1"
    by simp
  have n: "30 - retries \<noteq> 0"
    using a by auto
  have "unat ((30 - retries) - 1) = unat (30 - retries) - 1"
    using n by (rule unat_minus_one)
  moreover have "0 < unat (30 - retries)"
    using n by (simp add: unat_gt_0)
  ultimately have "unat (30 - (retries + 1)) < unat (30 - retries)"
    unfolding e by linarith
  then show "((apiClient, token, userLogin, retries + 1, Suc calls, fetched),
              (apiClient, token, userLogin, retries, calls, codespace))
      \<in> measure (\<lambda>(apiClient, token, userLogin, retries, calls, codespace). unat (30 - retries))"
    by (simp only: in_measure prod.case)
qed

text \<open>
  \<^verbatim>\<open>liveshare.NewClient\<close> and \<^verbatim>\<open>JoinWorkspace\<close> belong to another module; they are the
  parameters \<open>NewClient\<close> (given SessionID, SessionToken, RelaySAS and RelayEndpoint, in this
  order) and \<open>JoinWorkspace\<close>.
\<close>

definition ConnectToLiveshare ::
  "API \<Rightarrow> (string \<times> string \<times> string \<times> string \<Rightarrow> go_error + 'client) \<Rightarrow>
   ('client \<Rightarrow> go_error + 'session) \<Rightarrow> string \<Rightarrow> string \<Rightarrow> Codespace \<Rightarrow>
   event list \<times> (go_error + 'session)"
where
  "ConnectToLiveshare apiClient NewClient JoinWorkspace userLogin token codespace =
     (let startedCodespace = (State (Environment codespace) \<noteq> CodespaceEnvironmentStateAvailable);
          starting = (if startedCodespace
                      then [LogPrint ''Starting your Codespace...'', StartCodespaceCall] else []);
          startErr = (if startedCodespace then StartCodespace apiClient token codespace else None)
      in case startErr of
           Some err \<Rightarrow> (starting, Inl (''error starting Codespace: '' @ err))
         | None \<Rightarrow>
             (case pollLoop apiClient token userLogin 0 0 codespace of
                (polling, Inl err) \<Rightarrow> (starting @ polling, Inl err)
              | (polling, Inr ready) \<Rightarrow>
                  (let tr = starting @ polling
                            @ (if startedCodespace then [FmtPrint [CHR 0x0A]] else [])
                            @ [LogPrintln ''Connecting to your Codespace...'']
                   in case NewClient
                             (SessionID (Connection (Environment ready)),
                              SessionToken (Connection (Environment ready)),
                              RelaySAS (Connection (Environment ready)),
                              RelayEndpoint (Connection (Environment ready))) of
                        Inl err \<Rightarrow> (tr, Inl (''error creating Live Share client: '' @ err))
                      | Inr lsclient \<Rightarrow> (tr, JoinWorkspace lsclient))))"

subsection \<open>PollPostCreateStates\<close>

text \<open>A \<^verbatim>\<open>PostCreateState\<close> is a name and a status; the code only passes it on.\<close>

datatype PostCreateState = PostCreateState string string

definition sshDestination :: "Codespace \<Rightarrow> string" where
  "sshDestination codespace =
     (if RepositoryNWO codespace = ''github/github'' then ''root'' else ''codespace'') @ ''@localhost''"

text \<open>
  \<^verbatim>\<open>NewRemoteCommand(...).Run()\<close> and \<^verbatim>\<open>json.Unmarshal\<close> are the oracles \<open>Run\<close> (its first
  argument counts the earlier runs; it answers with an error or with the bytes written to
  stdout) and \<open>Unmarshal\<close>.
\<close>

definition getPostCreateOutput ::
  "(nat \<Rightarrow> int \<Rightarrow> string \<Rightarrow> string \<Rightarrow> go_error + string) \<Rightarrow>
   (string \<Rightarrow> go_error + PostCreateState list) \<Rightarrow> nat \<Rightarrow> int \<Rightarrow> Codespace \<Rightarrow>
   go_error + PostCreateState list"
where
  "getPostCreateOutput Run Unmarshal runs tunnelPort codespace =
     (case Run runs tunnelPort (sshDestination codespace)
             ''cat /workspaces/.codespaces/shared/postCreateOutput.json'' of
        Inl err \<Rightarrow> Inl (''run command: '' @ err)
      | Inr stdout \<Rightarrow>
          (case Unmarshal stdout of
             Inl err \<Rightarrow> Inl (''unmarshal output: '' @ err)
           | Inr steps \<Rightarrow> Inr steps))"

text \<open>
  The cases that the \<^verbatim>\<open>select\<close> of the watch loop can take, in the order in which it takes
  them: the context is done, the tunnel reports its end (with an error that may be \<^verbatim>\<open>nil\<close>),
  or the ticker fires.
\<close>

datatype poll_case = CtxDone | ConnClosed "go_error option" | Tick

text \<open>
  The loop \<^verbatim>\<open>for { select { ... } }\<close>. The result is the list of batches handed to \<^verbatim>\<open>poller\<close>
  and what the function returned: \<open>None\<close> while it is still waiting (the cases are used up),
  \<open>Some None\<close> for \<^verbatim>\<open>nil\<close>, \<open>Some (Some err)\<close> for an error.
\<close>

fun pollStates ::
  "(nat \<Rightarrow> int \<Rightarrow> string \<Rightarrow> string \<Rightarrow> go_error + string) \<Rightarrow>
   (string \<Rightarrow> go_error + PostCreateState list) \<Rightarrow> int \<Rightarrow> Codespace \<Rightarrow> nat \<Rightarrow> poll_case list \<Rightarrow>
   PostCreateState list list \<times> go_error option option"
where
  "pollStates Run Unmarshal tunnelPort codespace runs [] = ([], None)"
| "pollStates Run Unmarshal tunnelPort codespace runs (CtxDone # rest) = ([], Some None)"
| "pollStates Run Unmarshal tunnelPort codespace runs (ConnClosed err # rest) =
     ([], Some (Some (''connection closed: '' @ (case err of None \<Rightarrow> ''<nil>'' | Some m \<Rightarrow> m))))"
| "pollStates Run Unmarshal tunnelPort codespace runs (Tick # rest) =
     (case getPostCreateOutput Run Unmarshal runs tunnelPort codespace of
        Inl err \<Rightarrow> ([], Some (Some (''get post create output: '' @ err)))
      | Inr states \<Rightarrow>
          (case pollStates Run Unmarshal tunnelPort codespace (Suc runs) rest of
             (batches, r) \<Rightarrow> (states # batches, r)))"

text \<open>
  \<^verbatim>\<open>StartPortForwarding\<close> is not among the sources: it is the parameter of this name, which
  answers with an error or the local port of the tunnel; its \<^verbatim>\<open>connClosed\<close> channel is seen
  through the cases \<open>ConnClosed\<close>.
\<close>

definition PollPostCreateStates ::
  "API \<Rightarrow> (string \<times> string \<times> string \<times> string \<Rightarrow> go_error + 'client) \<Rightarrow>
   ('client \<Rightarrow> go_error + 'session) \<Rightarrow> ('session \<Rightarrow> string \<Rightarrow> int \<Rightarrow> go_error + int) \<Rightarrow>
   (nat \<Rightarrow> int \<Rightarrow> string \<Rightarrow> string \<Rightarrow> go_error + string) \<Rightarrow>
   (string \<Rightarrow> go_error + PostCreateState list) \<Rightarrow> string \<Rightarrow> Codespace \<Rightarrow> poll_case list \<Rightarrow>
   PostCreateState list list \<times> go_error option option"
where
  "PollPostCreateStates apiClient NewClient JoinWorkspace StartPortForwarding Run Unmarshal
       userLogin codespace cases =
     (case GetCodespaceToken apiClient userLogin (Name codespace) of
        Inl err \<Rightarrow> ([], Some (Some (''getting codespace token: '' @ err)))
      | Inr token \<Rightarrow>
          (case snd (ConnectToLiveshare apiClient NewClient JoinWorkspace userLogin token codespace) of
             Inl err \<Rightarrow> ([], Some (Some (''connect to liveshare: '' @ err)))
           | Inr lsclient \<Rightarrow>
               (case StartPortForwarding lsclient ''sshd'' 0 of
                  Inl err \<Rightarrow> ([], Some (Some (''make ssh tunnel: '' @ err)))
                | Inr tunnelPort \<Rightarrow> pollStates Run Unmarshal tunnelPort codespace 0 cases)))"

section \<open>pkg/liveshare: the RPC handler\<close>

record Request =
  Method :: string
  Params :: string

text \<open>
  A channel is known by the number it got when it was made; \<open>received\<close> lists, for every
  channel, the requests that its receiver has taken from it, oldest first. \<^verbatim>\<open>make(chan ...)\<close>
  yields a channel from which nothing has been received.
\<close>

type_synonym chan = nat

record channels =
  made :: nat
  received :: "chan \<Rightarrow> Request list"

definition make_chan :: "channels \<Rightarrow> chan \<times> channels" where
  "make_chan chs = (made chs, chs\<lparr>made := Suc (made chs), received := (received chs)(made chs := [])\<rparr>)"

text \<open>No channel has been made yet.\<close>

definition noChannels :: channels where
  "noChannels = \<lparr>made = 0, received = (\<lambda>ch. [])\<rparr>"

record rpcHandler =
  eventHandlers :: "string \<rightharpoonup> chan list"

definition newRPCHandler :: rpcHandler where
  "newRPCHandler = \<lparr>eventHandlers = Map.empty\<rparr>"

definition registerEventHandler :: "rpcHandler \<Rightarrow> channels \<Rightarrow> string \<Rightarrow> chan \<times> rpcHandler \<times> channels" where
  "registerEventHandler r chs eventMethod =
     (case make_chan chs of
        (ch, chs') \<Rightarrow>
          (ch,
           (case eventHandlers r eventMethod of
              None \<Rightarrow> r\<lparr>eventHandlers := (eventHandlers r)(eventMethod \<mapsto> [ch])\<rparr>
            | Some handlers \<Rightarrow> r\<lparr>eventHandlers := (eventHandlers r)(eventMethod \<mapsto> handlers @ [ch])\<rparr>),
           chs'))"

text \<open>
  \<open>Handle\<close> itself changes nothing: when the method has an entry in the table it starts a
  goroutine that holds the handlers read from the table and the request; the result is that
  goroutine, if any.
\<close>

definition Handle :: "rpcHandler \<Rightarrow> Request \<Rightarrow> (chan list \<times> Request) option" where
  "Handle r req =
     (case eventHandlers r (Method req) of
        Some handlers \<Rightarrow> Some (handlers, req)
      | None \<Rightarrow> None)"

text \<open>
  How one \<^verbatim>\<open>select { case handler <- req: case <-ctx.Done(): break }\<close> ends: the receiver takes
  the request, the context is done first, or neither ever happens. The \<^verbatim>\<open>break\<close> leaves the
  \<^verbatim>\<open>select\<close> only, so that the loop goes on with the next handler.
\<close>

datatype send = Taken | CtxDoneFirst | Blocks

fun deliver :: "(chan \<Rightarrow> send) \<Rightarrow> Request \<Rightarrow> chan list \<Rightarrow> channels \<Rightarrow> channels option" where
  "deliver sel req [] chs = Some chs"
| "deliver sel req (handler # handlers) chs =
     (case sel handler of
        Taken \<Rightarrow>
          deliver sel req handlers (chs\<lparr>received := (received chs)(handler := received chs handler @ [req])\<rparr>)
      | CtxDoneFirst \<Rightarrow> deliver sel req handlers chs
      | Blocks \<Rightarrow> None)"

text \<open>
  The goroutine started by \<open>Handle\<close>, run to its end on the table as it is then: \<open>None\<close> when
  a send blocks for ever.
\<close>

definition goroutine ::
  "(chan \<Rightarrow> send) \<Rightarrow> chan list \<times> Request \<Rightarrow> rpcHandler \<Rightarrow> channels \<Rightarrow> (rpcHandler \<times> channels) option"
where
  "goroutine sel g r chs =
     (case g of
        (handlers, req) \<Rightarrow>
          (case deliver sel req handlers chs of
             None \<Rightarrow> None
           | Some chs' \<Rightarrow> Some (r\<lparr>eventHandlers := (eventHandlers r)(Method req \<mapsto> [])\<rparr>, chs')))"

text \<open>
  A notification arrives and is handled to the end before anything else happens: \<open>Handle\<close>,
  then its goroutine. A registration that comes between the two is not a run of \<open>arrive\<close>.
\<close>

definition arrive ::
  "(chan \<Rightarrow> send) \<Rightarrow> Request \<Rightarrow> rpcHandler \<times> channels \<Rightarrow> (rpcHandler \<times> channels) option"
where
  "arrive sel req s =
     (case s of
        (r, chs) \<Rightarrow>
          (case Handle r req of
             None \<Rightarrow> Some (r, chs)
           | Some g \<Rightarrow> goroutine sel g r chs))"

text \<open>Runs of the handler: registrations and arrivals, one after the other.\<close>

datatype rpc_op = Register string | Arrive "chan \<Rightarrow> send" Request

fun run :: "rpc_op list \<Rightarrow> rpcHandler \<times> channels \<Rightarrow> (rpcHandler \<times> channels) option" where
  "run [] s = Some s"
| "run (Register eventMethod # ops) s =
     (case s of (r, chs) \<Rightarrow> run ops (snd (registerEventHandler r chs eventMethod)))"
| "run (Arrive sel req # ops) s =
     (case arrive sel req s of None \<Rightarrow> None | Some s' \<Rightarrow> run ops s')"

subsection \<open>rpcClient.do\<close>

record Port =
  SourcePort :: int
  DestinationPort :: int
  SessionName :: string
  StreamName :: string
  StreamCondition :: string
  BrowseURL :: string
  IsPublic :: bool
  IsTCPServerConnectionEstablished :: bool
  HasTLSHandshakePassed :: bool
  Privacy :: string

datatype arg = ArgInt int | ArgString string

text \<open>
  The connection of package jsonrpc2, as far as \<^verbatim>\<open>do\<close> uses it: \<open>DispatchCall\<close> answers with
  an error or a waiter, and \<open>Wait\<close> on the waiter with an error, with the decoded result (here
  always a \<^verbatim>\<open>Port\<close>), or never.
\<close>

record 'w Conn =
  DispatchCall :: "string \<Rightarrow> arg list \<Rightarrow> go_error + 'w"
  Wait :: "'w \<Rightarrow> (go_error + Port) option"

definition do :: "'w Conn \<Rightarrow> string \<Rightarrow> arg list \<Rightarrow> (go_error + Port) option" where
  "do r method args =
     (case DispatchCall r method args of
        Inl err \<Rightarrow> Some (Inl (''error on dispatch call: '' @ err))
      | Inr waiter \<Rightarrow> Wait r waiter)"

section \<open>pkg/liveshare/ports.go: sharing a port\<close>

type_synonym PortChangeKind = string

definition PortChangeKindStart :: PortChangeKind where
  "PortChangeKindStart = ''start''"

definition PortChangeKindUpdate :: PortChangeKind where
  "PortChangeKindUpdate = ''update''"

record PortUpdate =
  Port :: int
  ChangeKind :: PortChangeKind
  ErrorDetail :: string
  StatusCode :: int

record PortNotification = PortUpdate +
  Success :: bool

text \<open>The type \<^verbatim>\<open>channelID\<close> is a pair of strings, a name and a condition.\<close>

datatype channelID = channelID string string

subsection \<open>WaitForPortNotification\<close>

text \<open>
  The cases that the \<^verbatim>\<open>select\<close> of the wait can take: the context is done (with
  \<^verbatim>\<open>ctx.Err()\<close>), an error comes from \<^verbatim>\<open>errc\<close>, a notification from \<^verbatim>\<open>notificationUpdate\<close>.
\<close>

datatype select_case = Done go_error | Errc go_error | NotificationUpdate PortNotification

text \<open>
  The callback \<^verbatim>\<open>h(success)\<close>: what it sends, and on which of the two channels.
  \<^verbatim>\<open>json.Unmarshal\<close> is the oracle \<open>Unmarshal\<close>; a request is taken to carry parameters.
\<close>

definition h :: "(string \<Rightarrow> go_error + PortNotification) \<Rightarrow> bool \<Rightarrow> Request \<Rightarrow> select_case" where
  "h Unmarshal success req =
     (case Unmarshal (Params req) of
        Inl err \<Rightarrow> Errc (''error unmarshaling notification: '' @ err)
      | Inr notification \<Rightarrow> NotificationUpdate (notification\<lparr>Success := success\<rparr>))"

text \<open>What happens while the wait lasts: the context is cancelled, or a request comes in.\<close>

datatype wait_event = Cancelled go_error | Incoming Request

text \<open>
  Modelled from the spec: \<^verbatim>\<open>Session.registerRequestHandler\<close> is not among the sources. For the
  spec a listener for notifications is a method name with a one-shot delivery channel, held by
  the RPC engine and consumed the first time any notification for the method arrives.
  Accordingly the registration makes a listener with \<open>registerEventHandler\<close> on the handler of
  the connection, and the callback is run on each request that is taken from the channel of
  the listener. The result is the listener, a channel with its callback, and the new state.
\<close>

definition registerRequestHandler ::
  "rpcHandler \<times> channels \<Rightarrow> string \<Rightarrow> (Request \<Rightarrow> select_case) \<Rightarrow>
   (chan \<times> (Request \<Rightarrow> select_case)) \<times> (rpcHandler \<times> channels)"
where
  "registerRequestHandler s requestType callback =
     (case s of
        (r, chs) \<Rightarrow>
          (case registerEventHandler r chs requestType of
             (ch, r', chs') \<Rightarrow> ((ch, callback), (r', chs'))))"

text \<open>The requests that the receiver of a channel has taken between two states.\<close>

definition taken :: "chan \<Rightarrow> channels \<Rightarrow> channels \<Rightarrow> Request list" where
  "taken ch before after = drop (length (received before ch)) (received after ch)"

text \<open>
  What the callbacks of the listeners send to the wait, event after event. A request that
  comes in goes through \<open>Handle\<close> and its goroutine (\<open>arrive\<close>), and each listener runs its
  callback on what it has taken; when the goroutine blocks for ever the listeners of the wait,
  which were registered last, take nothing and the table stays as it is. A cancellation is
  seen by the wait itself.
\<close>

fun heard ::
  "(chan \<Rightarrow> send) \<Rightarrow> (chan \<times> (Request \<Rightarrow> select_case)) list \<Rightarrow> rpcHandler \<times> channels \<Rightarrow>
   wait_event list \<Rightarrow> select_case list"
where
  "heard sel listeners s [] = []"
| "heard sel listeners s (Cancelled err # events) = Done err # heard sel listeners s events"
| "heard sel listeners s (Incoming req # events) =
     (case arrive sel req s of
        None \<Rightarrow> heard sel listeners s events
      | Some s' \<Rightarrow>
          concat (map (\<lambda>(ch, callback). map callback (taken ch (snd s) (snd s'))) listeners)
          @ heard sel listeners s' events)"

text \<open>The loop \<^verbatim>\<open>for { select { ... } }\<close> of the wait; \<open>None\<close> while it is still waiting.\<close>

fun waitLoop :: "int \<Rightarrow> PortChangeKind \<Rightarrow> select_case list \<Rightarrow> (go_error + PortNotification) option" where
  "waitLoop port notifType [] = None"
| "waitLoop port notifType (Done err # rest) = Some (Inl err)"
| "waitLoop port notifType (Errc err # rest) = Some (Inl err)"
| "waitLoop port notifType (NotificationUpdate notification # rest) =
     (if Port notification = port \<and> ChangeKind notification = notifType
      then Some (Inr notification)
      else waitLoop port notifType rest)"

text \<open>
  The handler of a connection on which listeners for the methods \<open>earlier\<close> were registered,
  in this order, and are still there.
\<close>

fun registered :: "string list \<Rightarrow> rpcHandler \<times> channels \<Rightarrow> rpcHandler \<times> channels" where
  "registered [] s = s"
| "registered (eventMethod # earlier) s =
     (case s of (r, chs) \<Rightarrow> registered earlier (snd (registerEventHandler r chs eventMethod)))"

text \<open>
  The wait registers its two listeners on the handler of the connection, where the listeners
  \<open>earlier\<close> of others may be, and then takes what comes, one event after the other: what a
  callback sends is received by the \<^verbatim>\<open>select\<close> before the next event. \<open>sel\<close> says how the sends
  of the handler end.
\<close>

definition WaitForPortNotification ::
  "(string \<Rightarrow> go_error + PortNotification) \<Rightarrow> (chan \<Rightarrow> send) \<Rightarrow> string list \<Rightarrow> wait_event list \<Rightarrow>
   int \<Rightarrow> PortChangeKind \<Rightarrow> (go_error + PortNotification) option"
where
  "WaitForPortNotification Unmarshal sel earlier events port notifType =
     (case registerRequestHandler (registered earlier (newRPCHandler, noChannels))
             ''serverSharing.sharingSucceeded'' (h Unmarshal True) of
        (succeeded, s1) \<Rightarrow>
          (case registerRequestHandler s1 ''serverSharing.sharingFailed'' (h Unmarshal False) of
             (failed, s2) \<Rightarrow>
               waitLoop port notifType (heard sel [succeeded, failed] s2 events)))"

subsection \<open>startSharing\<close>

text \<open>\<^verbatim>\<open>fmt.Sprintf("%d", port)\<close>: decimal digits, with a minus sign for a negative number.\<close>

fun showNat :: "nat \<Rightarrow> string" where
  "showNat n =
     (if n < 10 then [''0123456789'' ! n] else showNat (n div 10) @ [''0123456789'' ! (n mod 10)])"

definition showInt :: "int \<Rightarrow> string" where
  "showInt i = (if i < 0 then CHR ''-'' # showNat (nat (- i)) else showNat (nat i))"

text \<open>
  The goroutine of \<^verbatim>\<open>startSharing\<close>: what it sends on \<^verbatim>\<open>errc\<close> (\<open>Some None\<close> is \<^verbatim>\<open>nil\<close>), or
  \<open>None\<close> while it has sent nothing.
\<close>

definition startNotification ::
  "(string \<Rightarrow> go_error + PortNotification) \<Rightarrow> (chan \<Rightarrow> send) \<Rightarrow> string list \<Rightarrow> wait_event list \<Rightarrow>
   int \<Rightarrow> go_error option option"
where
  "startNotification Unmarshal sel earlier events port =
     (case WaitForPortNotification Unmarshal sel earlier events port PortChangeKindStart of
        None \<Rightarrow> None
      | Some (Inl err) \<Rightarrow> Some (Some (''error while waiting for port notification: '' @ err))
      | Some (Inr startNotification) \<Rightarrow>
          (if \<not> Success startNotification
           then Some (Some (''error while starting port sharing: '' @ ErrorDetail startNotification))
           else Some None))"

text \<open>
  \<open>ctxDone\<close> says whether the last \<^verbatim>\<open>select\<close> of \<^verbatim>\<open>startSharing\<close> takes the case
  \<^verbatim>\<open>ctx.Done()\<close>, and with which \<^verbatim>\<open>ctx.Err()\<close>; otherwise it waits for \<^verbatim>\<open>errc\<close>. The result is
  \<open>None\<close> when the function does not return.
\<close>

definition startSharing ::
  "'w Conn \<Rightarrow> (string \<Rightarrow> go_error + PortNotification) \<Rightarrow> (chan \<Rightarrow> send) \<Rightarrow> string list \<Rightarrow>
   wait_event list \<Rightarrow> go_error option \<Rightarrow> string \<Rightarrow> int \<Rightarrow> (go_error + channelID) option"
where
  "startSharing rpc Unmarshal sel earlier events ctxDone sessionName port =
     (let args = [ArgInt port, ArgString sessionName, ArgString (''http://localhost:'' @ showInt port)];
          errc = startNotification Unmarshal sel earlier events port
      in case do rpc ''serverSharing.startSharing'' args of
           None \<Rightarrow> None
         | Some (Inl err) \<Rightarrow> Some (Inl err)
         | Some (Inr response) \<Rightarrow>
             (case ctxDone of
                Some ctxErr \<Rightarrow> Some (Inl ctxErr)
              | None \<Rightarrow>
                  (case errc of
                     None \<Rightarrow> None
                   | Some (Some err) \<Rightarrow> Some (Inl err)
                   | Some None \<Rightarrow>
                       Some (Inr (channelID (StreamName response) (StreamCondition response))))))"

section \<open>Notions used in the statements\<close>

text \<open>
  The polls numbered from \<open>lo\<close> up to, not including, \<open>hi\<close> all answer, whatever the name asked
  for, with a codespace that is not ready.
\<close>

definition unreadyFrom :: "API \<Rightarrow> string \<Rightarrow> string \<Rightarrow> nat \<Rightarrow> nat \<Rightarrow> bool" where
  "unreadyFrom apiClient token userLogin lo hi \<longleftrightarrow>
     (\<forall>i. lo \<le> i \<and> i < hi \<longrightarrow>
        (\<forall>name. \<exists>c. GetCodespace apiClient i token userLogin name = Inr c \<and> \<not> connectionReady c))"

text \<open>What iteration \<open>r\<close> of the poll loop does before it looks at the bound.\<close>

definition pauseBefore :: "nat \<Rightarrow> event list" where
  "pauseBefore r = (if 1 < r then (if even r then [LogPrint ''.''] else []) @ [Sleep 1] else [])"



text \<open>
  One listener at an arrival for its method, \<open>s\<close> saying how the send to it ends: whether it
  takes the request, and whether it is still registered afterwards (the entry is emptied
  unless the goroutine blocks).
\<close>

definition listenerHears :: "send \<Rightarrow> bool \<Rightarrow> bool" where
  "listenerHears s reg \<longleftrightarrow> reg \<and> s = Taken"

definition listenerStays :: "send \<Rightarrow> bool \<Rightarrow> bool" where
  "listenerStays s reg \<longleftrightarrow> reg \<and> s = Blocks"

text \<open>
  What the wait is sent by its two listeners: \<open>regS\<close> and \<open>regF\<close> say whether the listener
  for the success method and the one for the failure method are still registered, \<open>sS\<close> and
  \<open>sF\<close> how the sends to them end.
\<close>

fun oneShot ::
  "(string \<Rightarrow> go_error + PortNotification) \<Rightarrow> send \<Rightarrow> send \<Rightarrow> bool \<Rightarrow> bool \<Rightarrow> wait_event list \<Rightarrow>
   select_case list"
where
  "oneShot Unmarshal sS sF regS regF [] = []"
| "oneShot Unmarshal sS sF regS regF (Cancelled err # events) =
     Done err # oneShot Unmarshal sS sF regS regF events"
| "oneShot Unmarshal sS sF regS regF (Incoming req # events) =
     (if Method req = ''serverSharing.sharingSucceeded''
      then (if listenerHears sS regS then [h Unmarshal True req] else [])
           @ oneShot Unmarshal sS sF (listenerStays sS regS) regF events
      else if Method req = ''serverSharing.sharingFailed''
      then (if listenerHears sF regF then [h Unmarshal False req] else [])
           @ oneShot Unmarshal sS sF regS (listenerStays sF regF) events
      else oneShot Unmarshal sS sF regS regF events)"


text \<open>Every channel registered in the table has been made.\<close>

definition registeredBelow :: "rpcHandler \<times> channels \<Rightarrow> bool" where
  "registeredBelow s \<longleftrightarrow>
     (\<forall>m hs c. eventHandlers (fst s) m = Some hs \<longrightarrow> c \<in> set hs \<longrightarrow> c < made (snd s))"

text \<open>
  How the send to the last listener of a list ends: never, when a send to a listener of the
  list blocks for ever.
\<close>

definition listenerSend :: "(chan \<Rightarrow> send) \<Rightarrow> chan list \<Rightarrow> send" where
  "listenerSend sel hs = (if \<exists>x \<in> set hs. sel x = Blocks then Blocks else sel (last hs))"

text \<open>
  The table of a handler during a wait whose listeners are the channels \<open>k\<close> and \<open>Suc k\<close>,
  registered after the listeners \<open>preS\<close> and \<open>preF\<close> of others for the two methods.
\<close>

definition waiting :: "chan \<Rightarrow> chan list \<Rightarrow> chan list \<Rightarrow> rpcHandler \<Rightarrow> bool \<Rightarrow> bool \<Rightarrow> bool" where
  "waiting k preS preF r regS regF \<longleftrightarrow>
     eventHandlers r ''serverSharing.sharingSucceeded'' = Some (if regS then preS @ [k] else []) \<and>
     eventHandlers r ''serverSharing.sharingFailed'' = Some (if regF then preF @ [Suc k] else []) \<and>
     (\<forall>m hs. m \<noteq> ''serverSharing.sharingSucceeded'' \<longrightarrow> m \<noteq> ''serverSharing.sharingFailed'' \<longrightarrow>
        eventHandlers r m = Some hs \<longrightarrow> k \<notin> set hs \<and> Suc k \<notin> set hs)"

subsection \<open>Sample values\<close>

definition sampleCodespace :: "string \<Rightarrow> string \<Rightarrow> Codespace" where
  "sampleCodespace state sas =
     \<lparr>Name = ''monalisa-octo-1'', RepositoryNWO = ''octo/demo'',
      Environment = \<lparr>State = state,
        Connection = \<lparr>SessionID = ''session-id'', SessionToken = ''session-token'',
                      RelayEndpoint = ''sb://relay'', RelaySAS = sas\<rparr>\<rparr>\<rparr>"

text \<open>An API whose polls answer with a ready codespace from poll number \<open>readyAt\<close> on.\<close>

definition sampleAPI :: "nat \<Rightarrow> API" where
  "sampleAPI readyAt =
     \<lparr>GetCodespaceToken = (\<lambda>login name. Inr ''token''),
      StartCodespace = (\<lambda>token codespace. None),
      GetCodespace = (\<lambda>n token login name.
         Inr (if n < readyAt then sampleCodespace ''starting'' []
              else sampleCodespace ''available'' ''sas''))\<rparr>"

definition samplePort :: Port where
  "samplePort =
     \<lparr>SourcePort = 2222, DestinationPort = 2222, SessionName = ''sshd'', StreamName = ''s'',
      StreamCondition = ''c'', BrowseURL = ''http://localhost:2222'', IsPublic = False,
      IsTCPServerConnectionEstablished = False, HasTLSHandshakePassed = False,
      Privacy = ''private''\<rparr>"

text \<open>A connection on which every call is answered with \<open>samplePort\<close>.\<close>

definition sampleConn :: "nat Conn" where
  "sampleConn = \<lparr>DispatchCall = (\<lambda>method args. Inr 0), Wait = (\<lambda>waiter. Some (Inr samplePort))\<rparr>"

definition sampleUpdate :: "int \<Rightarrow> string \<Rightarrow> string \<Rightarrow> PortNotification" where
  "sampleUpdate p k d = \<lparr>Port = p, ChangeKind = k, ErrorDetail = d, StatusCode = 0, Success = False\<rparr>"

text \<open>A decoder that knows four payloads and rejects every other.\<close>

definition sampleUnmarshal :: "string \<Rightarrow> go_error + PortNotification" where
  "sampleUnmarshal params =
     (if params = ''2222 start'' then Inr (sampleUpdate 2222 ''start'' [])
      else if params = ''2222 start x'' then Inr (sampleUpdate 2222 ''start'' ''x'')
      else if params = ''2222 update'' then Inr (sampleUpdate 2222 ''update'' [])
      else if params = ''8080 start'' then Inr (sampleUpdate 8080 ''start'' [])
      else Inl ''invalid character'')"

definition sampleRun :: "nat \<Rightarrow> int \<Rightarrow> string \<Rightarrow> string \<Rightarrow> go_error + string" where
  "sampleRun n tunnelPort destination command = (if n < 2 then Inr ''steps'' else Inl ''exit status 255'')"

definition sampleSteps :: "string \<Rightarrow> go_error + PostCreateState list" where
  "sampleSteps stdout =
     (if stdout = ''steps'' then Inr [PostCreateState ''build'' ''running'']
      else Inl ''unexpected end of JSON input'')"

definition sampleRequest :: Request where
  "sampleRequest = \<lparr>Method = ''serverSharing.sharingSucceeded'', Params = ''2222 start''\<rparr>"


section \<open>The poll loop of ConnectToLiveshare\<close>

declare pollLoop.simps [simp del]

lemma w_sint: "n \<le> 30 \<Longrightarrow> sint (word_of_nat n :: 64 word) = int n"
proof -
  assume "n \<le> 30"
  then have "int n < 2 ^ 63" by simp
  then have "signed_take_bit 63 (int n) = int n"
    by (simp add: signed_take_bit_int_eq_self)
  then show ?thesis by (simp add: signed_of_nat)
qed

lemma w_eq30: "n \<le> 30 \<Longrightarrow> (word_of_nat n :: 64 word) = 30 \<longleftrightarrow> n = 30"
proof -
  assume n: "n \<le> 30"
  have "(word_of_nat n :: 64 word) = word_of_nat 30 \<longleftrightarrow> take_bit 64 n = take_bit 64 (30::nat)"
    by (simp only: word_of_nat_eq_iff len_bit0 len_num1 mult_1_right) simp
  moreover have "take_bit 64 n = n" using n by (simp add: take_bit_nat_eq_self)
  ultimately show ?thesis by simp
qed

lemma go_rem_2: "go_rem k 2 = 0 \<longleftrightarrow> even k"
  by (auto simp add: go_rem_def sgn_if)

lemma pollLoop_of_nat:
  assumes "n \<le> 30"
  shows "pollLoop apiClient token userLogin (word_of_nat n) calls codespace =
     (if connectionReady codespace then ([], Inr codespace)
      else if n = 30
           then (pauseBefore n, Inl ''timed out while waiting for the Codespace to start'')
           else
             (case GetCodespace apiClient calls token userLogin (Name codespace) of
                Inl err \<Rightarrow> (pauseBefore n @ [GetCodespaceCall], Inl (''error getting Codespace: '' @ err))
              | Inr fetched \<Rightarrow>
                  (case pollLoop apiClient token userLogin (word_of_nat (Suc n)) (Suc calls) fetched of
                     (tr, r) \<Rightarrow> (pauseBefore n @ GetCodespaceCall # tr, r))))"
  using assms
  by (subst pollLoop.simps)
     (simp add: w_sint w_eq30 go_rem_2 pauseBefore_def Let_def add.commute split: sum.split prod.split)

lemma timeout_from:
  "k = 30 - n \<Longrightarrow> n \<le> 30 \<Longrightarrow> \<not> connectionReady codespace \<Longrightarrow> unreadyFrom apiClient token userLogin n 30 \<Longrightarrow>
   pollLoop apiClient token userLogin (word_of_nat n) n codespace =
     (concat (map (\<lambda>r. pauseBefore r @ [GetCodespaceCall]) [n..<30]) @ pauseBefore 30,
      Inl ''timed out while waiting for the Codespace to start'')"
proof (induction k arbitrary: n codespace)
  case 0
  then have "n = 30" by simp
  with 0 show ?case using pollLoop_of_nat [of 30 apiClient token userLogin 30 codespace] by simp
next
  case (Suc k)
  then have n: "n < 30" by simp
  from Suc.prems(4) n obtain c where c: "GetCodespace apiClient n token userLogin (Name codespace) = Inr c"
    and nr: "\<not> connectionReady c"
    unfolding unreadyFrom_def by (metis le_refl)
  have u: "unreadyFrom apiClient token userLogin (Suc n) 30"
    using Suc.prems(4) unfolding unreadyFrom_def by simp
  have ih: "pollLoop apiClient token userLogin (word_of_nat (Suc n)) (Suc n) c =
     (concat (map (\<lambda>r. pauseBefore r @ [GetCodespaceCall]) [Suc n..<30]) @ pauseBefore 30,
      Inl ''timed out while waiting for the Codespace to start'')"
    using Suc.prems(1) n nr u by (intro Suc.IH) simp_all
  have up: "[n..<30] = n # [Suc n..<30]" using n by (simp add: upt_conv_Cons)
  show ?case
    using Suc.prems(2,3) n c ih by (simp add: pollLoop_of_nat [of n] up)
qed


lemma success_from:
  "k = m - n \<Longrightarrow> n \<le> m \<Longrightarrow> m < 30 \<Longrightarrow> \<not> connectionReady codespace \<Longrightarrow>
   unreadyFrom apiClient token userLogin n m \<Longrightarrow>
   \<forall>name. GetCodespace apiClient m token userLogin name = Inr c \<Longrightarrow> connectionReady c \<Longrightarrow>
   pollLoop apiClient token userLogin (word_of_nat n) n codespace =
     (concat (map (\<lambda>r. pauseBefore r @ [GetCodespaceCall]) [n..<Suc m]), Inr c)"
proof (induction k arbitrary: n codespace)
  case 0
  then have nm: "n = m" by simp
  have "pollLoop apiClient token userLogin (word_of_nat (Suc m)) (Suc m) c = ([], Inr c)"
    using 0 by (subst pollLoop.simps) simp
  then show ?case
    using 0 nm by (simp add: pollLoop_of_nat [of m])
next
  case (Suc k)
  then have n: "n < m" by simp
  from Suc.prems(5) n obtain d where d: "GetCodespace apiClient n token userLogin (Name codespace) = Inr d"
    and nr: "\<not> connectionReady d"
    unfolding unreadyFrom_def by (metis le_refl)
  have u: "unreadyFrom apiClient token userLogin (Suc n) m"
    using Suc.prems(5) unfolding unreadyFrom_def by simp
  have ih: "pollLoop apiClient token userLogin (word_of_nat (Suc n)) (Suc n) d =
     (concat (map (\<lambda>r. pauseBefore r @ [GetCodespaceCall]) [Suc n..<Suc m]), Inr c)"
    using Suc.prems n nr u by (intro Suc.IH) simp_all
  have up: "[n..<Suc m] = n # [Suc n..<Suc m]" using n by (simp add: upt_conv_Cons)
  show ?case
    using Suc.prems(3,4) n d ih by (simp add: pollLoop_of_nat [of n] up del: upt_Suc)
qed

lemma pollLoop_no_start:
  "StartCodespaceCall \<notin> set (fst (pollLoop apiClient token userLogin retries calls codespace))"
proof (induction apiClient token userLogin retries calls codespace rule: pollLoop.induct)
  case (1 apiClient token userLogin retries calls codespace)
  show ?case
  proof (cases "connectionReady codespace \<or> retries = 30")
    case True
    then show ?thesis
      by (subst pollLoop.simps) (auto simp add: Let_def)
  next
    case False
    show ?thesis
    proof (cases "GetCodespace apiClient calls token userLogin (Name codespace)")
      case (Inl err)
      with False show ?thesis
        by (subst pollLoop.simps) (auto simp add: Let_def)
    next
      case (Inr fetched)
      have "StartCodespaceCall \<notin> set (fst (pollLoop apiClient token userLogin (retries + 1) (Suc calls) fetched))"
        using False Inr by (intro 1) auto
      with False Inr show ?thesis
        by (subst pollLoop.simps) (auto simp add: Let_def split: prod.split)
    qed
  qed
qed


lemma schedule_all: "concat (map (\<lambda>r. pauseBefore r @ [GetCodespaceCall]) [0..<30]) @ pauseBefore 30 =
   [GetCodespaceCall, GetCodespaceCall]
   @ concat (map (\<lambda>r. (if even r then [LogPrint ''.''] else []) @ [Sleep 1, GetCodespaceCall]) [2..<30])
   @ [LogPrint ''.'', Sleep 1]"
proof -
  have a: "[0..<30] = 0 # 1 # [2..<30]"
    by (simp add: upt_conv_Cons)
  have b: "map (\<lambda>r. pauseBefore r @ [GetCodespaceCall]) [2..<30] =
           map (\<lambda>r. (if even r then [LogPrint ''.''] else []) @ [Sleep 1, GetCodespaceCall]) [2..<30]"
    by (rule map_cong) (auto simp add: pauseBefore_def)
  show ?thesis
    unfolding a by (simp only: list.map concat.simps b) (simp add: pauseBefore_def)
qed

text \<open>
  C3: the poll loop is bounded at 30 polls. When the codespace is ready at the first check,
  nothing is fetched and there is no sleep: the function goes straight on to the connection.
  When the codespace is not ready and the 30 polls all answer with a codespace that is not
  ready, the function fails with the timeout error after exactly these 30 polls; no sleep
  comes before the first and the second poll, each later poll follows a sleep of one second,
  and one more sleep comes before the timeout. When fewer than 30 polls answer so and the next
  one answers with a ready codespace, no more poll is made and the loop is left with that
  codespace.
\<close>

theorem ConnectToLiveshare_poll_bound:
  assumes "State (Environment codespace) \<noteq> CodespaceEnvironmentStateAvailable \<longrightarrow>
           StartCodespace apiClient token codespace = None"
  shows
   "(connectionReady codespace \<longrightarrow>
       ConnectToLiveshare apiClient NewClient JoinWorkspace userLogin token codespace =
         ([LogPrintln ''Connecting to your Codespace...''],
          (case NewClient (SessionID (Connection (Environment codespace)),
                           SessionToken (Connection (Environment codespace)),
                           RelaySAS (Connection (Environment codespace)),
                           RelayEndpoint (Connection (Environment codespace))) of
             Inl err \<Rightarrow> Inl (''error creating Live Share client: '' @ err)
           | Inr lsclient \<Rightarrow> JoinWorkspace lsclient))) \<and>
    (\<not> connectionReady codespace \<and> unreadyFrom apiClient token userLogin 0 30 \<longrightarrow>
       ConnectToLiveshare apiClient NewClient JoinWorkspace userLogin token codespace =
         ((if State (Environment codespace) \<noteq> CodespaceEnvironmentStateAvailable
           then [LogPrint ''Starting your Codespace...'', StartCodespaceCall] else [])
          @ [GetCodespaceCall, GetCodespaceCall]
          @ concat (map (\<lambda>r. (if even r then [LogPrint ''.''] else []) @ [Sleep 1, GetCodespaceCall])
                     [2..<30])
          @ [LogPrint ''.'', Sleep 1],
          Inl ''timed out while waiting for the Codespace to start'')) \<and>
    (\<not> connectionReady codespace \<and> m < 30 \<and> unreadyFrom apiClient token userLogin 0 m \<and>
     (\<forall>name. GetCodespace apiClient m token userLogin name = Inr c) \<and> connectionReady c \<longrightarrow>
       length (filter (\<lambda>e. e = GetCodespaceCall)
                (fst (ConnectToLiveshare apiClient NewClient JoinWorkspace userLogin token codespace)))
         = Suc m \<and>
       snd (ConnectToLiveshare apiClient NewClient JoinWorkspace userLogin token codespace) =
          (case NewClient (SessionID (Connection (Environment c)),
                           SessionToken (Connection (Environment c)),
                           RelaySAS (Connection (Environment c)),
                           RelayEndpoint (Connection (Environment c))) of
             Inl err \<Rightarrow> Inl (''error creating Live Share client: '' @ err)
           | Inr lsclient \<Rightarrow> JoinWorkspace lsclient))"
proof (intro conjI impI)
  assume r: "connectionReady codespace"
  then have "State (Environment codespace) = CodespaceEnvironmentStateAvailable"
    by (simp add: connectionReady_def)
  moreover have "pollLoop apiClient token userLogin 0 0 codespace = ([], Inr codespace)"
    using r by (subst pollLoop.simps) simp
  ultimately show "ConnectToLiveshare apiClient NewClient JoinWorkspace userLogin token codespace =
         ([LogPrintln ''Connecting to your Codespace...''],
          (case NewClient (SessionID (Connection (Environment codespace)),
                           SessionToken (Connection (Environment codespace)),
                           RelaySAS (Connection (Environment codespace)),
                           RelayEndpoint (Connection (Environment codespace))) of
             Inl err \<Rightarrow> Inl (''error creating Live Share client: '' @ err)
           | Inr lsclient \<Rightarrow> JoinWorkspace lsclient))"
    by (simp add: ConnectToLiveshare_def split: sum.split)
next
  assume a: "\<not> connectionReady codespace \<and> unreadyFrom apiClient token userLogin 0 30"
  then have "pollLoop apiClient token userLogin (word_of_nat 0) 0 codespace =
     (concat (map (\<lambda>r. pauseBefore r @ [GetCodespaceCall]) [0..<30]) @ pauseBefore 30,
      Inl ''timed out while waiting for the Codespace to start'')"
    by (intro timeout_from) simp_all
  then have "pollLoop apiClient token userLogin 0 0 codespace =
     (concat (map (\<lambda>r. pauseBefore r @ [GetCodespaceCall]) [0..<30]) @ pauseBefore 30,
      Inl ''timed out while waiting for the Codespace to start'')"
    by simp
  then have "pollLoop apiClient token userLogin 0 0 codespace =
     ([GetCodespaceCall, GetCodespaceCall]
      @ concat (map (\<lambda>r. (if even r then [LogPrint ''.''] else []) @ [Sleep 1, GetCodespaceCall]) [2..<30])
      @ [LogPrint ''.'', Sleep 1],
      Inl ''timed out while waiting for the Codespace to start'')"
    by (simp only: schedule_all)
  then show "ConnectToLiveshare apiClient NewClient JoinWorkspace userLogin token codespace =
         ((if State (Environment codespace) \<noteq> CodespaceEnvironmentStateAvailable
           then [LogPrint ''Starting your Codespace...'', StartCodespaceCall] else [])
          @ [GetCodespaceCall, GetCodespaceCall]
          @ concat (map (\<lambda>r. (if even r then [LogPrint ''.''] else []) @ [Sleep 1, GetCodespaceCall])
                     [2..<30])
          @ [LogPrint ''.'', Sleep 1],
          Inl ''timed out while waiting for the Codespace to start'')"
    using assms by (simp add: ConnectToLiveshare_def)
next
  assume a: "\<not> connectionReady codespace \<and> m < 30 \<and> unreadyFrom apiClient token userLogin 0 m \<and>
     (\<forall>name. GetCodespace apiClient m token userLogin name = Inr c) \<and> connectionReady c"
  then have "pollLoop apiClient token userLogin (word_of_nat 0) 0 codespace =
     (concat (map (\<lambda>r. pauseBefore r @ [GetCodespaceCall]) [0..<Suc m]), Inr c)"
    by (intro success_from) simp_all
  then have p: "pollLoop apiClient token userLogin 0 0 codespace =
     (concat (map (\<lambda>r. pauseBefore r @ [GetCodespaceCall]) [0..<Suc m]), Inr c)"
    by simp
  have n: "length (filter (\<lambda>e. e = GetCodespaceCall)
             (concat (map (\<lambda>r. pauseBefore r @ [GetCodespaceCall]) [0..<k]))) = k" for k
    by (induction k) (simp_all add: pauseBefore_def)
  show "length (filter (\<lambda>e. e = GetCodespaceCall)
                (fst (ConnectToLiveshare apiClient NewClient JoinWorkspace userLogin token codespace)))
         = Suc m"
    using assms p n [of "Suc m"]
    by (simp add: ConnectToLiveshare_def Let_def split: sum.split del: upt_Suc)
  show "snd (ConnectToLiveshare apiClient NewClient JoinWorkspace userLogin token codespace) =
          (case NewClient (SessionID (Connection (Environment c)),
                           SessionToken (Connection (Environment c)),
                           RelaySAS (Connection (Environment c)),
                           RelayEndpoint (Connection (Environment c))) of
             Inl err \<Rightarrow> Inl (''error creating Live Share client: '' @ err)
           | Inr lsclient \<Rightarrow> JoinWorkspace lsclient)"
    using assms p
    by (simp add: ConnectToLiveshare_def Let_def split: sum.split del: upt_Suc)
qed

theorem ConnectToLiveshare_poll_bound_witness:
  "ConnectToLiveshare (sampleAPI 30) Inr Inr ''monalisa'' ''token'' (sampleCodespace ''available'' ''sas'')
     = ([LogPrintln ''Connecting to your Codespace...''], Inr (''session-id'', ''session-token'', ''sas'', ''sb://relay'')) \<and>
   snd (ConnectToLiveshare (sampleAPI 30) Inr Inr ''monalisa'' ''token'' (sampleCodespace ''shutdown'' []))
     = Inl ''timed out while waiting for the Codespace to start'' \<and>
   length (filter (\<lambda>e. e = GetCodespaceCall)
     (fst (ConnectToLiveshare (sampleAPI 30) Inr Inr ''monalisa'' ''token'' (sampleCodespace ''shutdown'' []))))
     = 30 \<and>
   length (filter (\<lambda>e. e = GetCodespaceCall)
     (fst (ConnectToLiveshare (sampleAPI 3) Inr Inr ''monalisa'' ''token'' (sampleCodespace ''shutdown'' []))))
     = 4 \<and>
   snd (ConnectToLiveshare (sampleAPI 3) Inr Inr ''monalisa'' ''token'' (sampleCodespace ''shutdown'' []))
     = Inr (''session-id'', ''session-token'', ''sas'', ''sb://relay'')"
proof -
  have s: "State (Environment (sampleCodespace st sas)) \<noteq> CodespaceEnvironmentStateAvailable \<longrightarrow>
           StartCodespace (sampleAPI k) ''token'' (sampleCodespace st sas) = None" for st sas k
    by (simp add: sampleAPI_def)
  have r: "connectionReady (sampleCodespace ''available'' ''sas'')"
    by (simp add: sampleCodespace_def connectionReady_def CodespaceEnvironmentStateAvailable_def)
  have n: "\<not> connectionReady (sampleCodespace st [])" for st
    by (simp add: sampleCodespace_def connectionReady_def)
  have u: "unreadyFrom (sampleAPI k) ''token'' ''monalisa'' 0 k" for k
    by (simp add: unreadyFrom_def sampleAPI_def n)
  have g: "\<forall>name. GetCodespace (sampleAPI 3) 3 ''token'' ''monalisa'' name = Inr (sampleCodespace ''available'' ''sas'')"
    by (simp add: sampleAPI_def)
  note a = ConnectToLiveshare_poll_bound [OF s [of "''available''" "''sas''" 30],
              where NewClient = Inr and JoinWorkspace = Inr and userLogin = "''monalisa''"]
  note b = ConnectToLiveshare_poll_bound [OF s [of "''shutdown''" "[]" 30],
              where NewClient = Inr and JoinWorkspace = Inr and userLogin = "''monalisa''"]
  note c = ConnectToLiveshare_poll_bound [OF s [of "''shutdown''" "[]" 3],
              where NewClient = Inr and JoinWorkspace = Inr and userLogin = "''monalisa''"
                and m = 3 and c = "sampleCodespace ''available'' ''sas''"]
  show ?thesis
    using a b c r n u g
    by (simp add: sampleCodespace_def CodespaceEnvironmentStateAvailable_def)
qed

lemma pollLoop_first:
  "\<not> connectionReady codespace \<Longrightarrow>
     \<exists>tr. fst (pollLoop apiClient token userLogin 0 0 codespace) = GetCodespaceCall # tr"
  by (subst pollLoop.simps) (simp split: sum.split prod.split)

lemma filter_no_start:
  "filter (\<lambda>e. e = StartCodespaceCall) (fst (pollLoop apiClient token userLogin retries calls codespace)) = []"
  using pollLoop_no_start [of apiClient token userLogin retries calls codespace]
  by (auto simp add: filter_empty_conv)

text \<open>
  C10: the request to start the codespace is issued once when the state first reported is not
  "available" and not at all when it is; when that state is "available" and a field of the
  connection descriptor is empty, the poll loop runs (a poll is the first thing done) and no
  start request is ever issued.
\<close>

theorem ConnectToLiveshare_start_once:
  "length (filter (\<lambda>e. e = StartCodespaceCall)
      (fst (ConnectToLiveshare apiClient NewClient JoinWorkspace userLogin token codespace)))
     = (if State (Environment codespace) \<noteq> CodespaceEnvironmentStateAvailable then 1 else 0) \<and>
   (State (Environment codespace) = CodespaceEnvironmentStateAvailable \<and> \<not> connectionReady codespace \<longrightarrow>
      (\<exists>tr. fst (ConnectToLiveshare apiClient NewClient JoinWorkspace userLogin token codespace)
             = GetCodespaceCall # tr) \<and>
      StartCodespaceCall \<notin>
        set (fst (ConnectToLiveshare apiClient NewClient JoinWorkspace userLogin token codespace)))"
proof (intro conjI impI)
  obtain polling r where p: "pollLoop apiClient token userLogin 0 0 codespace = (polling, r)"
    by (cases "pollLoop apiClient token userLogin 0 0 codespace")
  have f: "filter (\<lambda>e. e = StartCodespaceCall) polling = []"
    using filter_no_start [of apiClient token userLogin 0 0 codespace] p by simp
  show "length (filter (\<lambda>e. e = StartCodespaceCall)
      (fst (ConnectToLiveshare apiClient NewClient JoinWorkspace userLogin token codespace)))
     = (if State (Environment codespace) \<noteq> CodespaceEnvironmentStateAvailable then 1 else 0)"
    using p f by (simp add: ConnectToLiveshare_def Let_def split: option.split sum.split)
  assume a: "State (Environment codespace) = CodespaceEnvironmentStateAvailable \<and> \<not> connectionReady codespace"
  then obtain tr where t: "polling = GetCodespaceCall # tr"
    using pollLoop_first [of codespace apiClient token userLogin] p by auto
  show "\<exists>tr. fst (ConnectToLiveshare apiClient NewClient JoinWorkspace userLogin token codespace)
             = GetCodespaceCall # tr"
    using a p t by (simp add: ConnectToLiveshare_def Let_def split: sum.split)
  show "StartCodespaceCall \<notin>
        set (fst (ConnectToLiveshare apiClient NewClient JoinWorkspace userLogin token codespace))"
    using a p pollLoop_no_start [of apiClient token userLogin 0 0 codespace]
    by (auto simp add: ConnectToLiveshare_def Let_def split: sum.split)
qed

theorem ConnectToLiveshare_start_once_witness:
  "length (filter (\<lambda>e. e = StartCodespaceCall)
      (fst (ConnectToLiveshare (sampleAPI 3) Inr Inr ''monalisa'' ''token'' (sampleCodespace ''shutdown'' ''sas''))))
     = 1 \<and>
   length (filter (\<lambda>e. e = StartCodespaceCall)
      (fst (ConnectToLiveshare (sampleAPI 3) Inr Inr ''monalisa'' ''token'' (sampleCodespace ''available'' []))))
     = 0 \<and>
   \<not> connectionReady (sampleCodespace ''available'' []) \<and>
   (\<exists>tr. fst (ConnectToLiveshare (sampleAPI 3) Inr Inr ''monalisa'' ''token'' (sampleCodespace ''available'' []))
             = GetCodespaceCall # tr)"
  using ConnectToLiveshare_start_once [of "sampleAPI 3" Inr Inr "''monalisa''" "''token''" "sampleCodespace ''shutdown'' ''sas''"]
    ConnectToLiveshare_start_once [of "sampleAPI 3" Inr Inr "''monalisa''" "''token''" "sampleCodespace ''available'' []"]
  by (simp add: sampleCodespace_def connectionReady_def CodespaceEnvironmentStateAvailable_def)

section \<open>Properties of the readiness predicate\<close>

text \<open>
  C7: the readiness predicate holds for a workspace exactly when the four fields of its
  connection descriptor (sessionID, sessionToken, relayEndpoint, relaySAS) are all non-empty
  and its state equals "available"; with an empty field or another state the workspace is not
  ready, and the poll loop goes on: from its start it does not return the workspace it was
  given but fetches it again.
\<close>

theorem connectionReady_iff:
  "(connectionReady codespace \<longleftrightarrow>
      SessionID (Connection (Environment codespace)) \<noteq> [] \<and>
      SessionToken (Connection (Environment codespace)) \<noteq> [] \<and>
      RelayEndpoint (Connection (Environment codespace)) \<noteq> [] \<and>
      RelaySAS (Connection (Environment codespace)) \<noteq> [] \<and>
      State (Environment codespace) = ''available'') \<and>
   (connectionReady codespace \<or>
      (\<exists>tr. fst (pollLoop apiClient token userLogin 0 0 codespace) = GetCodespaceCall # tr))"
proof -
  have "\<not> connectionReady codespace \<Longrightarrow>
      \<exists>tr. fst (pollLoop apiClient token userLogin 0 0 codespace) = GetCodespaceCall # tr"
    by (rule pollLoop_first)
  then show ?thesis
    by (auto simp add: connectionReady_def CodespaceEnvironmentStateAvailable_def)
qed


theorem connectionReady_iff_witness:
  "connectionReady (sampleCodespace ''available'' ''sas'') \<and>
   \<not> connectionReady (sampleCodespace ''available'' []) \<and>
   \<not> connectionReady (sampleCodespace ''shutdown'' ''sas'') \<and>
   (\<exists>tr. fst (pollLoop (sampleAPI 3) ''token'' ''monalisa'' 0 0 (sampleCodespace ''shutdown'' ''sas''))
      = GetCodespaceCall # tr)"
proof -
  note a = connectionReady_iff [of "sampleCodespace ''available'' ''sas''" "sampleAPI 3" "''token''" "''monalisa''"]
  note b = connectionReady_iff [of "sampleCodespace ''available'' []" "sampleAPI 3" "''token''" "''monalisa''"]
  note c = connectionReady_iff [of "sampleCodespace ''shutdown'' ''sas''" "sampleAPI 3" "''token''" "''monalisa''"]
  have 1: "connectionReady (sampleCodespace ''available'' ''sas'')"
    using a by (simp add: sampleCodespace_def)
  have 2: "\<not> connectionReady (sampleCodespace ''available'' [])"
    using b by (simp add: sampleCodespace_def)
  have 3: "\<not> connectionReady (sampleCodespace ''shutdown'' ''sas'')"
    using c by (simp add: sampleCodespace_def)
  from 1 2 3 c show ?thesis
    by blast
qed


section \<open>Waiting for port notifications and sharing a port\<close>

lemma registeredBelow_register:
  assumes "registeredBelow (r, chs)"
  shows "registeredBelow (snd (registerEventHandler r chs eventMethod))"
  using assms
  by (auto simp add: registeredBelow_def registerEventHandler_def make_chan_def less_Suc_eq
      split: option.splits if_splits)

lemma registeredBelow_registered:
  "registeredBelow s \<Longrightarrow> registeredBelow (registered earlier s)"
proof (induction earlier arbitrary: s)
  case Nil
  then show ?case by simp
next
  case (Cons eventMethod earlier)
  obtain r chs where s: "s = (r, chs)" by (cases s)
  with Cons.prems have "registeredBelow (snd (registerEventHandler r chs eventMethod))"
    by (simp add: registeredBelow_register)
  from Cons.IH [OF this] s show ?case by simp
qed

lemma deliver_append:
  "deliver sel req (xs @ ys) chs =
     (case deliver sel req xs chs of None \<Rightarrow> None | Some c \<Rightarrow> deliver sel req ys c)"
  by (induction xs arbitrary: chs) (auto split: send.split)

lemma deliver_None_iff:
  "deliver sel req hs chs = None \<longleftrightarrow> (\<exists>x \<in> set hs. sel x = Blocks)"
  by (induction hs arbitrary: chs) (auto split: send.split)

lemma deliver_unchanged:
  "deliver sel req hs chs = Some chs' \<Longrightarrow> c \<notin> set hs \<Longrightarrow> received chs' c = received chs c"
proof (induction hs arbitrary: chs)
  case Nil
  then show ?case by simp
next
  case (Cons x hs)
  then show ?case by (cases "sel x") auto
qed

lemma taken_same: "received chs' c = received chs c \<Longrightarrow> taken c chs chs' = []"
  by (simp add: taken_def)

lemma arrive_listener:
  assumes "eventHandlers r (Method req) = Some (pre @ [c])" and "c \<notin> set pre" and "d \<notin> set (pre @ [c])"
  shows "case arrive sel req (r, chs) of
           None \<Rightarrow> listenerSend sel (pre @ [c]) = Blocks
         | Some (r', chs') \<Rightarrow>
             listenerSend sel (pre @ [c]) \<noteq> Blocks \<and>
             r' = r\<lparr>eventHandlers := (eventHandlers r)(Method req \<mapsto> [])\<rparr> \<and>
             taken c chs chs' = (if listenerSend sel (pre @ [c]) = Taken then [req] else []) \<and>
             taken d chs chs' = []"
proof (cases "deliver sel req (pre @ [c]) chs")
  case None
  then have "listenerSend sel (pre @ [c]) = Blocks"
    by (simp only: deliver_None_iff listenerSend_def) simp
  with None assms(1) show ?thesis
    by (simp add: arrive_def Handle_def goroutine_def)
next
  case (Some chs')
  then have nb: "\<not> (\<exists>x \<in> set (pre @ [c]). sel x = Blocks)"
    using deliver_None_iff [of sel req "pre @ [c]" chs] by simp
  then have ls: "listenerSend sel (pre @ [c]) = sel c" and nbc: "sel c \<noteq> Blocks"
    by (simp_all add: listenerSend_def)
  from Some obtain mid where m: "deliver sel req pre chs = Some mid" and l: "deliver sel req [c] mid = Some chs'"
    by (auto simp add: deliver_append split: option.splits)
  have u: "received mid c = received chs c"
    using m assms(2) by (rule deliver_unchanged)
  have t: "taken c chs chs' = (if sel c = Taken then [req] else [])"
    using l u nbc by (cases "sel c") (auto simp add: taken_def)
  have d: "taken d chs chs' = []"
    using deliver_unchanged [OF Some assms(3)] by (rule taken_same)
  from Some assms(1) ls nbc t d show ?thesis
    by (simp add: arrive_def Handle_def goroutine_def)
qed

lemma arrive_emptied:
  assumes "eventHandlers r (Method req) = Some []"
  shows "arrive sel req (r, chs) = Some (r, chs)"
proof -
  have "(eventHandlers r)(Method req \<mapsto> []) = eventHandlers r"
    using assms by (rule map_upd_triv)
  with assms show ?thesis by (simp add: arrive_def Handle_def goroutine_def)
qed

lemma arrive_elsewhere:
  assumes "\<forall>hs. eventHandlers r (Method req) = Some hs \<longrightarrow> c \<notin> set hs \<and> d \<notin> set hs"
  shows "case arrive sel req (r, chs) of
           None \<Rightarrow> True
         | Some (r', chs') \<Rightarrow>
             (r' = r \<or> r' = r\<lparr>eventHandlers := (eventHandlers r)(Method req \<mapsto> [])\<rparr>) \<and>
             taken c chs chs' = [] \<and> taken d chs chs' = []"
proof (cases "eventHandlers r (Method req)")
  case None
  then show ?thesis by (simp add: arrive_def Handle_def taken_def)
next
  case (Some hs')
  show ?thesis
  proof (cases "deliver sel req hs' chs")
    case None
    with Some show ?thesis by (simp add: arrive_def Handle_def goroutine_def)
  next
    case d: (Some chs')
    from Some assms have n: "c \<notin> set hs'" "d \<notin> set hs'" by auto
    show ?thesis
      using Some d deliver_unchanged [OF d n(1)] deliver_unchanged [OF d n(2)]
      by (simp add: arrive_def Handle_def goroutine_def taken_def)
  qed
qed

lemma waiting_cleared:
  assumes "waiting k preS preF r regS regF"
  shows "waiting k preS preF (r\<lparr>eventHandlers := (eventHandlers r)(''serverSharing.sharingSucceeded'' \<mapsto> [])\<rparr>)
           False regF"
    and "waiting k preS preF (r\<lparr>eventHandlers := (eventHandlers r)(''serverSharing.sharingFailed'' \<mapsto> [])\<rparr>)
           regS False"
    and "m \<noteq> ''serverSharing.sharingSucceeded'' \<Longrightarrow> m \<noteq> ''serverSharing.sharingFailed'' \<Longrightarrow>
         waiting k preS preF (r\<lparr>eventHandlers := (eventHandlers r)(m \<mapsto> [])\<rparr>) regS regF"
  using assms by (auto simp add: waiting_def)

lemma heard_oneShot:
  assumes "\<forall>c \<in> set preS \<union> set preF. c < k"
  shows "waiting k preS preF r regS regF \<Longrightarrow>
     heard sel [(k, h Unmarshal True), (Suc k, h Unmarshal False)] (r, chs) events =
     oneShot Unmarshal (listenerSend sel (preS @ [k])) (listenerSend sel (preF @ [Suc k])) regS regF events"
proof (induction events arbitrary: r chs regS regF)
  case Nil
  show ?case by simp
next
  case (Cons ev events)
  let ?sS = "listenerSend sel (preS @ [k])"
  let ?sF = "listenerSend sel (preF @ [Suc k])"
  have lt: "c < k" if "c \<in> set preS \<or> c \<in> set preF" for c
    using assms that by auto
  show ?case
  proof (cases ev)
    case (Cancelled err)
    with Cons show ?thesis by simp
  next
    case (Incoming req)
    consider (succeeded) "Method req = ''serverSharing.sharingSucceeded''"
      | (failed) "Method req \<noteq> ''serverSharing.sharingSucceeded''" "Method req = ''serverSharing.sharingFailed''"
      | (other) "Method req \<noteq> ''serverSharing.sharingSucceeded''" "Method req \<noteq> ''serverSharing.sharingFailed''"
      by blast
    then show ?thesis
    proof cases
      case succeeded
      show ?thesis
      proof (cases regS)
        case True
        have e: "eventHandlers r (Method req) = Some (preS @ [k])"
          using Cons.prems succeeded True by (simp add: waiting_def)
        have f: "k \<notin> set preS" "Suc k \<notin> set (preS @ [k])"
          using lt [of k] lt [of "Suc k"] by auto
        note a = arrive_listener [OF e f, where sel = sel and chs = chs]
        show ?thesis
        proof (cases "arrive sel req (r, chs)")
          case None
          with a have "?sS = Blocks" by simp
          with None Incoming succeeded True Cons.IH [OF Cons.prems, of chs] show ?thesis
            by (simp add: listenerHears_def listenerStays_def)
        next
          case (Some s')
          obtain r' chs' where s': "s' = (r', chs')" by (cases s')
          with a Some have nb: "?sS \<noteq> Blocks"
            and r': "r' = r\<lparr>eventHandlers := (eventHandlers r)(Method req \<mapsto> [])\<rparr>"
            and t: "taken k chs chs' = (if ?sS = Taken then [req] else [])"
            and d: "taken (Suc k) chs chs' = []"
            by simp_all
          have "waiting k preS preF r' False regF"
            using waiting_cleared(1) [OF Cons.prems] r' succeeded by simp
          from Cons.IH [OF this, of chs'] Some s' Incoming succeeded True nb t d show ?thesis
            by (simp add: listenerHears_def listenerStays_def)
        qed
      next
        case False
        have e: "eventHandlers r (Method req) = Some []"
          using Cons.prems succeeded False by (simp add: waiting_def)
        from arrive_emptied [OF e, where sel = sel and chs = chs] Incoming succeeded False Cons.IH [OF Cons.prems, of chs]
        show ?thesis
          by (simp add: listenerHears_def listenerStays_def taken_def)
      qed
    next
      case failed
      show ?thesis
      proof (cases regF)
        case True
        have e: "eventHandlers r (Method req) = Some (preF @ [Suc k])"
          using Cons.prems failed True by (simp add: waiting_def)
        have f: "Suc k \<notin> set preF" "k \<notin> set (preF @ [Suc k])"
          using lt [of k] lt [of "Suc k"] by auto
        note a = arrive_listener [OF e f, where sel = sel and chs = chs]
        show ?thesis
        proof (cases "arrive sel req (r, chs)")
          case None
          with a have "?sF = Blocks" by simp
          with None Incoming failed True Cons.IH [OF Cons.prems, of chs] show ?thesis
            by (simp add: listenerHears_def listenerStays_def)
        next
          case (Some s')
          obtain r' chs' where s': "s' = (r', chs')" by (cases s')
          with a Some have nb: "?sF \<noteq> Blocks"
            and r': "r' = r\<lparr>eventHandlers := (eventHandlers r)(Method req \<mapsto> [])\<rparr>"
            and t: "taken (Suc k) chs chs' = (if ?sF = Taken then [req] else [])"
            and d: "taken k chs chs' = []"
            by simp_all
          have "waiting k preS preF r' regS False"
            using waiting_cleared(2) [OF Cons.prems] r' failed by simp
          from Cons.IH [OF this, of chs'] Some s' Incoming failed True nb t d show ?thesis
            by (simp add: listenerHears_def listenerStays_def)
        qed
      next
        case False
        have e: "eventHandlers r (Method req) = Some []"
          using Cons.prems failed False by (simp add: waiting_def)
        from arrive_emptied [OF e, where sel = sel and chs = chs] Incoming failed False Cons.IH [OF Cons.prems, of chs]
        show ?thesis
          by (simp add: listenerHears_def listenerStays_def taken_def)
      qed
    next
      case other
      have n: "\<forall>hs. eventHandlers r (Method req) = Some hs \<longrightarrow> k \<notin> set hs \<and> Suc k \<notin> set hs"
        using Cons.prems other by (simp add: waiting_def)
      note a = arrive_elsewhere [OF n, where sel = sel and chs = chs]
      show ?thesis
      proof (cases "arrive sel req (r, chs)")
        case None
        with Incoming other Cons.IH [OF Cons.prems, of chs] show ?thesis
          by simp
      next
        case (Some s')
        obtain r' chs' where s': "s' = (r', chs')" by (cases s')
        with a Some have r': "r' = r \<or> r' = r\<lparr>eventHandlers := (eventHandlers r)(Method req \<mapsto> [])\<rparr>"
          and t: "taken k chs chs' = []" "taken (Suc k) chs chs' = []"
          by simp_all
        have "waiting k preS preF r' regS regF"
          using r' Cons.prems waiting_cleared(3) [OF Cons.prems other] by auto
        from Cons.IH [OF this, of chs'] Some s' Incoming other t show ?thesis
          by simp
      qed
    qed
  qed
qed

lemma register_entry:
  "registerEventHandler r chs eventMethod = (ch, r', chs') \<Longrightarrow>
   ch = made chs \<and> made chs' = Suc (made chs) \<and>
   eventHandlers r' =
     (eventHandlers r)(eventMethod \<mapsto>
        (case eventHandlers r eventMethod of None \<Rightarrow> [] | Some handlers \<Rightarrow> handlers) @ [ch])"
  by (auto simp add: registerEventHandler_def make_chan_def split: option.splits)

lemma Wait_oneShot:
  "\<exists>sS sF.
     (\<forall>events port notifType.
        WaitForPortNotification Unmarshal sel earlier events port notifType =
          waitLoop port notifType (oneShot Unmarshal sS sF True True events)) \<and>
     ((\<forall>ch. sel ch = Taken) \<longrightarrow> sS = Taken \<and> sF = Taken)"
proof -
  obtain r0 chs0 where s0: "registered earlier (newRPCHandler, noChannels) = (r0, chs0)"
    by (cases "registered earlier (newRPCHandler, noChannels)")
  have "registeredBelow (newRPCHandler, noChannels)"
    by (simp add: registeredBelow_def newRPCHandler_def)
  from registeredBelow_registered [OF this, of earlier] s0 have b: "registeredBelow (r0, chs0)"
    by simp
  let ?k = "made chs0"
  let ?S = "''serverSharing.sharingSucceeded''"
  let ?F = "''serverSharing.sharingFailed''"
  let ?preS = "case eventHandlers r0 ?S of None \<Rightarrow> [] | Some handlers \<Rightarrow> handlers"
  let ?preF = "case eventHandlers r0 ?F of None \<Rightarrow> [] | Some handlers \<Rightarrow> handlers"
  obtain c1 r1 chs1 where g1: "registerEventHandler r0 chs0 ?S = (c1, r1, chs1)"
    by (cases "registerEventHandler r0 chs0 ?S")
  obtain c2 r2 chs2 where g2: "registerEventHandler r1 chs1 ?F = (c2, r2, chs2)"
    by (cases "registerEventHandler r1 chs1 ?F")
  from register_entry [OF g1] have c1: "c1 = ?k" and m1: "made chs1 = Suc ?k"
    and e1: "eventHandlers r1 = (eventHandlers r0)(?S \<mapsto> ?preS @ [?k])"
    by simp_all
  from register_entry [OF g2] m1 e1 have c2: "c2 = Suc ?k"
    and e2: "eventHandlers r2 = (eventHandlers r0)(?S \<mapsto> ?preS @ [?k], ?F \<mapsto> ?preF @ [Suc ?k])"
    by simp_all
  have below: "c < ?k" if "eventHandlers r0 m = Some hs" "c \<in> set hs" for m hs c
    using b that by (auto simp add: registeredBelow_def)
  have lt: "\<forall>c \<in> set ?preS \<union> set ?preF. c < ?k"
    by (auto split: option.splits dest: below [OF sym])
  have w: "waiting ?k ?preS ?preF r2 True True"
    using e2 below by (fastforce simp add: waiting_def)
  have "WaitForPortNotification Unmarshal sel earlier events port notifType =
      waitLoop port notifType
        (oneShot Unmarshal (listenerSend sel (?preS @ [?k])) (listenerSend sel (?preF @ [Suc ?k]))
           True True events)" for events port notifType
  proof -
    have "WaitForPortNotification Unmarshal sel earlier events port notifType =
        waitLoop port notifType
          (heard sel [(?k, h Unmarshal True), (Suc ?k, h Unmarshal False)] (r2, chs2) events)"
      using s0 g1 g2 c1 c2 by (simp add: WaitForPortNotification_def registerRequestHandler_def)
    then show ?thesis
      by (simp only: heard_oneShot [OF lt w])
  qed
  moreover have "(\<forall>ch. sel ch = Taken) \<longrightarrow>
      listenerSend sel (?preS @ [?k]) = Taken \<and> listenerSend sel (?preF @ [Suc ?k]) = Taken"
    by (simp add: listenerSend_def)
  ultimately show ?thesis by blast
qed

lemma Wait_Taken:
  assumes "\<forall>ch. sel ch = Taken"
  shows "WaitForPortNotification Unmarshal sel earlier events port notifType =
     waitLoop port notifType (oneShot Unmarshal Taken Taken True True events)"
  using Wait_oneShot [of Unmarshal sel earlier] assms by auto

lemma waitLoop_Inr:
  "waitLoop port notifType cs = Some (Inr n) \<Longrightarrow>
   NotificationUpdate n \<in> set cs \<and> Port n = port \<and> ChangeKind n = notifType"
  by (induction port notifType cs rule: waitLoop.induct) (auto split: if_splits)


lemma h_notification:
  "NotificationUpdate n = h Unmarshal success req \<Longrightarrow>
   \<exists>u. Unmarshal (Params req) = Inr u \<and> n = u\<lparr>Success := success\<rparr>"
  by (auto simp add: h_def split: sum.splits)

lemma oneShot_notification:
  "NotificationUpdate n \<in> set (oneShot Unmarshal sS sF regS regF events) \<Longrightarrow>
   \<exists>req u. Incoming req \<in> set events \<and> Unmarshal (Params req) = Inr u \<and>
     (Method req = ''serverSharing.sharingSucceeded'' \<and> n = u\<lparr>Success := True\<rparr> \<or>
      Method req = ''serverSharing.sharingFailed'' \<and> n = u\<lparr>Success := False\<rparr>)"
proof (induction events arbitrary: regS regF)
  case Nil
  then show ?case by simp
next
  case (Cons ev events)
  show ?case
  proof (cases ev)
    case (Cancelled err)
    with Cons.prems have "NotificationUpdate n \<in> set (oneShot Unmarshal sS sF regS regF events)"
      by simp
    from Cons.IH [OF this] show ?thesis by auto
  next
    case (Incoming req)
    from Cons.prems Incoming
    have "(Method req = ''serverSharing.sharingSucceeded'' \<and> NotificationUpdate n = h Unmarshal True req) \<or>
          (Method req = ''serverSharing.sharingFailed'' \<and> NotificationUpdate n = h Unmarshal False req) \<or>
          (\<exists>rS rF. NotificationUpdate n \<in> set (oneShot Unmarshal sS sF rS rF events))"
      by (auto split: if_splits)
    then consider
        (s) "Method req = ''serverSharing.sharingSucceeded''" "NotificationUpdate n = h Unmarshal True req"
      | (f) "Method req = ''serverSharing.sharingFailed''" "NotificationUpdate n = h Unmarshal False req"
      | (later) rS rF where "NotificationUpdate n \<in> set (oneShot Unmarshal sS sF rS rF events)"
      by blast
    then show ?thesis
    proof cases
      case s
      from h_notification [OF s(2)] s(1) Incoming show ?thesis by auto
    next
      case f
      from h_notification [OF f(2)] f(1) Incoming show ?thesis by auto
    next
      case later
      from Cons.IH [OF later] show ?thesis by auto
    qed
  qed
qed



lemma Wait_Inr:
  assumes "WaitForPortNotification Unmarshal sel earlier events port notifType = Some (Inr n)"
  shows "Port n = port \<and> ChangeKind n = notifType \<and>
     (\<exists>req u. Incoming req \<in> set events \<and> Unmarshal (Params req) = Inr u \<and>
        (Method req = ''serverSharing.sharingSucceeded'' \<and> n = u\<lparr>Success := True\<rparr> \<or>
         Method req = ''serverSharing.sharingFailed'' \<and> n = u\<lparr>Success := False\<rparr>))"
proof -
  from Wait_oneShot [of Unmarshal sel earlier] obtain sS sF where
    "WaitForPortNotification Unmarshal sel earlier events port notifType =
       waitLoop port notifType (oneShot Unmarshal sS sF True True events)"
    by blast
  with assms have "waitLoop port notifType (oneShot Unmarshal sS sF True True events) = Some (Inr n)"
    by simp
  from waitLoop_Inr [OF this] oneShot_notification [of n Unmarshal sS sF True True events]
  show ?thesis by blast
qed






lemmas sample_wait =
  Wait_Taken listenerHears_def listenerStays_def h_def sampleUnmarshal_def sampleUpdate_def





text \<open>
  C1: when \<open>startSharing\<close> succeeds, the call \<^verbatim>\<open>serverSharing.startSharing\<close> has returned a
  \<^verbatim>\<open>Port\<close> record, the channel identifier returned is made of the stream name and the stream
  condition of that record, and among the events there is a notification on the success
  method for this very port (with the kind of change "start").
\<close>

theorem startSharing_success:
  "startSharing rpc Unmarshal sel earlier events ctxDone sessionName port = Some (Inr cid) \<Longrightarrow>
   (\<exists>response.
      do rpc ''serverSharing.startSharing''
         [ArgInt port, ArgString sessionName, ArgString (''http://localhost:'' @ showInt port)]
        = Some (Inr response) \<and>
      cid = channelID (StreamName response) (StreamCondition response)) \<and>
   (\<exists>req u. Incoming req \<in> set events \<and> Method req = ''serverSharing.sharingSucceeded'' \<and>
      Unmarshal (Params req) = Inr u \<and> Port u = port \<and> ChangeKind u = ''start'')"
proof -
  assume a: "startSharing rpc Unmarshal sel earlier events ctxDone sessionName port = Some (Inr cid)"
  let ?call = "do rpc ''serverSharing.startSharing''
         [ArgInt port, ArgString sessionName, ArgString (''http://localhost:'' @ showInt port)]"
  from a obtain response where r: "?call = Some (Inr response)"
    and c: "cid = channelID (StreamName response) (StreamCondition response)"
    and e: "startNotification Unmarshal sel earlier events port = Some None"
    by (auto simp add: startSharing_def Let_def split: option.splits sum.splits)
  from e obtain n where w: "WaitForPortNotification Unmarshal sel earlier events port PortChangeKindStart = Some (Inr n)"
    and s: "Success n"
    by (auto simp add: startNotification_def split: option.splits sum.splits if_splits)
  from Wait_Inr [OF w] s have "\<exists>req u. Incoming req \<in> set events \<and>
      Method req = ''serverSharing.sharingSucceeded'' \<and>
      Unmarshal (Params req) = Inr u \<and> Port u = port \<and> ChangeKind u = ''start''"
    by (auto simp add: PortChangeKindStart_def)
  with r c show ?thesis by blast
qed

theorem startSharing_success_witness:
  "startSharing sampleConn sampleUnmarshal (\<lambda>ch. Taken) []
      [Incoming \<lparr>Method = ''serverSharing.sharingSucceeded'', Params = ''2222 start''\<rparr>] None ''sshd'' 2222
     = Some (Inr (channelID ''s'' ''c'')) \<and>
   startSharing sampleConn sampleUnmarshal (\<lambda>ch. Taken)
      [''serverSharing.sharingFailed'', ''serverSharing.sharingSucceeded'']
      [Incoming \<lparr>Method = ''serverSharing.sharingSucceeded'', Params = ''2222 start''\<rparr>] None ''sshd'' 2222
     = Some (Inr (channelID ''s'' ''c'')) \<and>
   do sampleConn ''serverSharing.startSharing''
      [ArgInt 2222, ArgString ''sshd'', ArgString ''http://localhost:2222''] = Some (Inr samplePort) \<and>
   (\<exists>req u. Incoming req \<in> set [Incoming \<lparr>Method = ''serverSharing.sharingSucceeded'', Params = ''2222 start''\<rparr>] \<and>
      Method req = ''serverSharing.sharingSucceeded'' \<and>
      sampleUnmarshal (Params req) = Inr u \<and> Port u = 2222 \<and> ChangeKind u = ''start'')"
proof -
  let ?start = "\<lparr>Method = ''serverSharing.sharingSucceeded'', Params = ''2222 start''\<rparr>"
  have c: "startSharing sampleConn sampleUnmarshal (\<lambda>ch. Taken) earlier [Incoming ?start] None ''sshd'' 2222 =
           Some (Inr (channelID ''s'' ''c''))" for earlier
    by (simp add: startSharing_def startNotification_def sample_wait do_def sampleConn_def
        samplePort_def PortChangeKindStart_def)
  have d: "do sampleConn ''serverSharing.startSharing''
      [ArgInt 2222, ArgString ''sshd'', ArgString ''http://localhost:2222''] = Some (Inr samplePort)"
    by (simp add: do_def sampleConn_def)
  from startSharing_success [OF c [of "[]"]] c d show ?thesis
    by simp
qed




section \<open>Watching the post-create states\<close>

lemma pollStates_ticks:
  "\<forall>i<k. \<exists>states. getPostCreateOutput Run Unmarshal (n + i) tunnelPort codespace = Inr states \<Longrightarrow>
   pollStates Run Unmarshal tunnelPort codespace n (replicate k Tick @ rest) =
     (map (\<lambda>i. projr (getPostCreateOutput Run Unmarshal (n + i) tunnelPort codespace)) [0..<k]
        @ fst (pollStates Run Unmarshal tunnelPort codespace (n + k) rest),
      snd (pollStates Run Unmarshal tunnelPort codespace (n + k) rest))"
proof (induction k arbitrary: n)
  case 0
  show ?case by simp
next
  case (Suc k)
  from Suc.prems obtain states where s: "getPostCreateOutput Run Unmarshal n tunnelPort codespace = Inr states"
    by force
  have "\<forall>i<k. \<exists>states. getPostCreateOutput Run Unmarshal (Suc n + i) tunnelPort codespace = Inr states"
    using Suc.prems by (metis Suc_less_eq add_Suc_shift)
  from Suc.IH [OF this]
  have ih: "pollStates Run Unmarshal tunnelPort codespace (Suc n) (replicate k Tick @ rest) =
     (map (\<lambda>i. projr (getPostCreateOutput Run Unmarshal (Suc n + i) tunnelPort codespace)) [0..<k]
        @ fst (pollStates Run Unmarshal tunnelPort codespace (Suc n + k) rest),
      snd (pollStates Run Unmarshal tunnelPort codespace (Suc n + k) rest))" .
  have m: "map (\<lambda>i. projr (getPostCreateOutput Run Unmarshal (n + i) tunnelPort codespace)) [0..<Suc k] =
     states # map (\<lambda>i. projr (getPostCreateOutput Run Unmarshal (Suc n + i) tunnelPort codespace)) [0..<k]"
    using s by (simp add: upt_conv_Cons map_Suc_upt [symmetric] del: upt_Suc)
  show ?case
    unfolding m using s ih by simp
qed

lemma getPostCreateOutput_fails:
  "(Run n tunnelPort (sshDestination codespace)
        ''cat /workspaces/.codespaces/shared/postCreateOutput.json'' = Inl e \<longrightarrow>
      getPostCreateOutput Run Unmarshal n tunnelPort codespace = Inl (''run command: '' @ e)) \<and>
   (Run n tunnelPort (sshDestination codespace)
        ''cat /workspaces/.codespaces/shared/postCreateOutput.json'' = Inr out \<and>
    Unmarshal out = Inl e \<longrightarrow>
      getPostCreateOutput Run Unmarshal n tunnelPort codespace = Inl (''unmarshal output: '' @ e))"
  by (simp add: getPostCreateOutput_def)

text \<open>
  C6: once the token, the session and the tunnel are there and \<open>k\<close> ticks have each read and
  parsed a batch, the watch returns \<^verbatim>\<open>nil\<close> when the \<^verbatim>\<open>select\<close> takes the cancelled context; it
  returns an error when the tunnel reports its end, when the remote read of the next tick
  fails, and when its output cannot be parsed. In each case the batches handed to the poller
  are those of the \<open>k\<close> ticks before, and what would have come later is not looked at: a failed
  read or parse ends the watch, the tick is not skipped.
\<close>

theorem PollPostCreateStates_ends:
  assumes "GetCodespaceToken apiClient userLogin (Name codespace) = Inr token"
    and "snd (ConnectToLiveshare apiClient NewClient JoinWorkspace userLogin token codespace) = Inr lsclient"
    and "StartPortForwarding lsclient ''sshd'' 0 = Inr tunnelPort"
    and "\<forall>i<k. \<exists>states. getPostCreateOutput Run Unmarshal i tunnelPort codespace = Inr states"
  shows
   "PollPostCreateStates apiClient NewClient JoinWorkspace StartPortForwarding Run Unmarshal
       userLogin codespace (replicate k Tick @ CtxDone # rest) =
      (map (\<lambda>i. projr (getPostCreateOutput Run Unmarshal i tunnelPort codespace)) [0..<k], Some None) \<and>
    PollPostCreateStates apiClient NewClient JoinWorkspace StartPortForwarding Run Unmarshal
       userLogin codespace (replicate k Tick @ ConnClosed err # rest) =
      (map (\<lambda>i. projr (getPostCreateOutput Run Unmarshal i tunnelPort codespace)) [0..<k],
       Some (Some (''connection closed: '' @ (case err of None \<Rightarrow> ''<nil>'' | Some m \<Rightarrow> m)))) \<and>
    (Run k tunnelPort (sshDestination codespace)
        ''cat /workspaces/.codespaces/shared/postCreateOutput.json'' = Inl e \<longrightarrow>
     PollPostCreateStates apiClient NewClient JoinWorkspace StartPortForwarding Run Unmarshal
       userLogin codespace (replicate k Tick @ Tick # rest) =
      (map (\<lambda>i. projr (getPostCreateOutput Run Unmarshal i tunnelPort codespace)) [0..<k],
       Some (Some (''get post create output: run command: '' @ e)))) \<and>
    (Run k tunnelPort (sshDestination codespace)
        ''cat /workspaces/.codespaces/shared/postCreateOutput.json'' = Inr out \<and>
     Unmarshal out = Inl e \<longrightarrow>
     PollPostCreateStates apiClient NewClient JoinWorkspace StartPortForwarding Run Unmarshal
       userLogin codespace (replicate k Tick @ Tick # rest) =
      (map (\<lambda>i. projr (getPostCreateOutput Run Unmarshal i tunnelPort codespace)) [0..<k],
       Some (Some (''get post create output: unmarshal output: '' @ e))))"
proof -
  have p: "PollPostCreateStates apiClient NewClient JoinWorkspace StartPortForwarding Run Unmarshal
       userLogin codespace cases = pollStates Run Unmarshal tunnelPort codespace 0 cases" for cases
    using assms(1-3) by (simp add: PollPostCreateStates_def)
  have t: "pollStates Run Unmarshal tunnelPort codespace 0 (replicate k Tick @ cases) =
     (map (\<lambda>i. projr (getPostCreateOutput Run Unmarshal i tunnelPort codespace)) [0..<k]
        @ fst (pollStates Run Unmarshal tunnelPort codespace k cases),
      snd (pollStates Run Unmarshal tunnelPort codespace k cases))" for cases
    using pollStates_ticks [of k Run Unmarshal 0 tunnelPort codespace cases] assms(4) by simp
  show ?thesis
    using getPostCreateOutput_fails [of Run k tunnelPort codespace e Unmarshal out]
    by (simp add: p t)
qed

theorem PollPostCreateStates_ends_witness:
  "PollPostCreateStates (sampleAPI 0) Inr Inr (\<lambda>lsclient protocol port. Inr 2222) sampleRun sampleSteps
       ''monalisa'' (sampleCodespace ''available'' ''sas'') [Tick, Tick, CtxDone, Tick] =
      ([[PostCreateState ''build'' ''running''], [PostCreateState ''build'' ''running'']], Some None) \<and>
   PollPostCreateStates (sampleAPI 0) Inr Inr (\<lambda>lsclient protocol port. Inr 2222) sampleRun sampleSteps
       ''monalisa'' (sampleCodespace ''available'' ''sas'') [Tick, Tick, ConnClosed (Some ''EOF''), Tick] =
      ([[PostCreateState ''build'' ''running''], [PostCreateState ''build'' ''running'']],
       Some (Some ''connection closed: EOF'')) \<and>
   PollPostCreateStates (sampleAPI 0) Inr Inr (\<lambda>lsclient protocol port. Inr 2222) sampleRun sampleSteps
       ''monalisa'' (sampleCodespace ''available'' ''sas'') [Tick, Tick, Tick, Tick] =
      ([[PostCreateState ''build'' ''running''], [PostCreateState ''build'' ''running'']],
       Some (Some ''get post create output: run command: exit status 255''))"
proof -
  let ?cs = "sampleCodespace ''available'' ''sas''"
  have r: "connectionReady ?cs"
    by (simp add: sampleCodespace_def connectionReady_def CodespaceEnvironmentStateAvailable_def)
  then have l: "pollLoop (sampleAPI 0) ''token'' ''monalisa'' 0 0 ?cs = ([], Inr ?cs)"
    by (subst pollLoop.simps) simp
  have 1: "GetCodespaceToken (sampleAPI 0) ''monalisa'' (Name ?cs) = Inr ''token''"
    by (simp add: sampleAPI_def)
  have 2: "snd (ConnectToLiveshare (sampleAPI 0) Inr Inr ''monalisa'' ''token'' ?cs) =
      Inr (''session-id'', ''session-token'', ''sas'', ''sb://relay'')"
    using r l by (simp add: ConnectToLiveshare_def connectionReady_def) (simp add: sampleCodespace_def)
  have 3: "(\<lambda>lsclient protocol port. Inr 2222) (''session-id'', ''session-token'', ''sas'', ''sb://relay'')
      ''sshd'' (0::int) = (Inr 2222 :: go_error + int)"
    by simp
  have g: "getPostCreateOutput sampleRun sampleSteps i 2222 ?cs = Inr [PostCreateState ''build'' ''running'']"
    if "i < 2" for i
    using that by (simp add: getPostCreateOutput_def sampleRun_def sampleSteps_def)
  have 4: "\<forall>i<2. \<exists>states. getPostCreateOutput sampleRun sampleSteps i 2222 ?cs = Inr states"
    using g by simp
  have f: "sampleRun 2 2222 (sshDestination ?cs)
        ''cat /workspaces/.codespaces/shared/postCreateOutput.json'' = Inl ''exit status 255''"
    by (simp add: sampleRun_def)
  have m: "map (\<lambda>i. projr (getPostCreateOutput sampleRun sampleSteps i 2222 ?cs)) [0..<2] =
      [[PostCreateState ''build'' ''running''], [PostCreateState ''build'' ''running'']]"
    using g [of 0] g [of 1] by (simp add: upt_conv_Cons)
  have e: "replicate 2 Tick = [Tick, Tick]"
    by (simp add: numeral_2_eq_2)
  note t = PollPostCreateStates_ends [OF 1 2 3 4, where err = "Some ''EOF''" and rest = "[Tick]"
      and e = "''exit status 255''"]
  show ?thesis
    using t f unfolding m e by simp
qed


section \<open>Notifications and their listeners\<close>





lemma register_fresh:
  "registerEventHandler r chs eventMethod = (ch, r', chs') \<Longrightarrow>
   received chs' ch = [] \<and> (\<forall>listener. listener \<noteq> ch \<longrightarrow> received chs' listener = received chs listener) \<and>
   eventHandlers r' eventMethod =
     Some ((case eventHandlers r eventMethod of None \<Rightarrow> [] | Some handlers \<Rightarrow> handlers) @ [ch])"
  by (auto simp add: registerEventHandler_def make_chan_def split: option.splits)



text \<open>
  C9: a notification that arrives for a method without a listener (no entry in the table, as
  in a new handler, or an empty list) changes nothing: neither the table nor any channel holds
  it afterwards. Whatever happens next, registrations of listeners for the method included,
  goes as if the notification had never arrived, and a listener registered next has received
  nothing. If a goroutine was started (for an empty list), it sends nothing, whenever it runs.
\<close>

theorem notification_without_listener_dropped:
  assumes "eventHandlers r (Method req) = None \<or> eventHandlers r (Method req) = Some []"
  shows "arrive sel req (r, chs) = Some (r, chs) \<and>
     run (Arrive sel req # ops) (r, chs) = run ops (r, chs) \<and>
     (\<forall>ch r' chs'. registerEventHandler r chs (Method req) = (ch, r', chs') \<longrightarrow>
        eventHandlers r' (Method req) = Some [ch] \<and> received chs' ch = []) \<and>
     (\<forall>g r1 chs1. Handle r req = Some g \<longrightarrow> (\<exists>r'. goroutine sel g r1 chs1 = Some (r', chs1))) \<and>
     arrive sel req (newRPCHandler, chs) = Some (newRPCHandler, chs)"
proof -
  have a: "arrive sel req (r, chs) = Some (r, chs)"
  proof (cases "eventHandlers r (Method req)")
    case None
    then show ?thesis by (simp add: arrive_def Handle_def)
  next
    case (Some handlers)
    with assms have e: "eventHandlers r (Method req) = Some []" by simp
    then have "(eventHandlers r)(Method req \<mapsto> []) = eventHandlers r"
      by (rule map_upd_triv)
    with e show ?thesis by (simp add: arrive_def Handle_def goroutine_def)
  qed
  have n: "\<forall>ch r' chs'. registerEventHandler r chs (Method req) = (ch, r', chs') \<longrightarrow>
        eventHandlers r' (Method req) = Some [ch] \<and> received chs' ch = []"
    using assms by (auto dest: register_fresh)
  have l: "\<forall>g r1 chs1. Handle r req = Some g \<longrightarrow> (\<exists>r'. goroutine sel g r1 chs1 = Some (r', chs1))"
    using assms by (auto simp add: Handle_def goroutine_def)
  have i: "arrive sel req (newRPCHandler, chs) = Some (newRPCHandler, chs)"
    by (simp add: arrive_def Handle_def newRPCHandler_def)
  from a n l i show ?thesis by simp
qed

theorem notification_without_listener_dropped_witness:
  "run [Arrive (\<lambda>ch. Taken) sampleRequest, Register ''serverSharing.sharingSucceeded'']
       (newRPCHandler, \<lparr>made = 0, received = (\<lambda>ch. [])\<rparr>)
     = Some (\<lparr>eventHandlers = [''serverSharing.sharingSucceeded'' \<mapsto> [0]]\<rparr>,
             \<lparr>made = 1, received = (\<lambda>ch. [])\<rparr>)"
proof -
  have 1: "eventHandlers newRPCHandler (Method sampleRequest) = None \<or>
           eventHandlers newRPCHandler (Method sampleRequest) = Some []"
    by (simp add: newRPCHandler_def)
  have "run [Register ''serverSharing.sharingSucceeded''] (newRPCHandler, \<lparr>made = 0, received = (\<lambda>ch. [])\<rparr>)
     = Some (\<lparr>eventHandlers = [''serverSharing.sharingSucceeded'' \<mapsto> [0]]\<rparr>,
             \<lparr>made = 1, received = (\<lambda>ch. [])\<rparr>)"
    by (simp add: registerEventHandler_def make_chan_def newRPCHandler_def fun_upd_idem)
  with notification_without_listener_dropped [OF 1, where sel = "\<lambda>ch. Taken"
      and ops = "[Register ''serverSharing.sharingSucceeded'']"
      and chs = "\<lparr>made = 0, received = (\<lambda>ch. [])\<rparr>"]
  show ?thesis by simp
qed

end
